theory Spec2Isabelle
  imports Complex_Main
begin

section \<open>Conventions of the embedding\<close>

text \<open>
  The pricing and risk engine of the repository is embedded function by function.
  Python floats are read as real numbers (no rounding, no overflow); a Python exception is
  a value of \<open>py_error\<close> on the left of a sum.  The columns of an option chain, read
  from a file or computed by pandas in the contract selector, are read as reals extended
  by the three special values of IEEE arithmetic: a file may leave a value out, and pandas
  divides by zero without raising.
\<close>

datatype py_error = ValueError | ZeroDivisionError | IndexError | KeyError | OverflowError

definition pbind :: "py_error + 'a \<Rightarrow> ('a \<Rightarrow> py_error + 'b) \<Rightarrow> py_error + 'b" where
  "pbind m f = (case m of Inl e \<Rightarrow> Inl e | Inr v \<Rightarrow> f v)"

text \<open>Float division of Python: a zero divisor raises.\<close>

definition py_div :: "real \<Rightarrow> real \<Rightarrow> py_error + real" where
  "py_div a b = (if b = 0 then Inl ZeroDivisionError else Inr (a / b))"

text \<open>\<open>math.log\<close> and \<open>math.sqrt\<close> raise outside their domain.\<close>

definition math_log :: "real \<Rightarrow> py_error + real" where
  "math_log x = (if x \<le> 0 then Inl ValueError else Inr (ln x))"

definition math_sqrt :: "real \<Rightarrow> py_error + real" where
  "math_sqrt x = (if x < 0 then Inl ValueError else Inr (sqrt x))"

text \<open>
  \<open>math.erf\<close> is the error function; it is given here by its Maclaurin series
  \<open>2/sqrt pi * (x - x^3/3 + x^5/10 - ...)\<close>, whose \<open>n\<close>-th coefficient is
  \<open>erf_coeff n\<close>.
\<close>

definition erf_coeff :: "nat \<Rightarrow> real" where
  "erf_coeff n = (if even n then 0
     else 2 / sqrt pi * (- 1) ^ (n div 2) / (real n * fact (n div 2)))"

definition erf :: "real \<Rightarrow> real" where
  "erf x = (\<Sum>n. erf_coeff n * x ^ n)"

definition erf_term :: "real \<Rightarrow> nat \<Rightarrow> real" where
  "erf_term x k = 2 / sqrt pi * (- 1) ^ k / (real (2 * k + 1) * fact k) * x ^ (2 * k + 1)"

text \<open>
  The antiderivative of \<open>cos t ^ m\<close> that vanishes at \<open>0\<close>, by the reduction formula;
  it serves to bound the error function by \<open>1\<close>.
\<close>

fun cos_int :: "nat \<Rightarrow> real \<Rightarrow> real" where
  "cos_int 0 = (\<lambda>t. t)"
| "cos_int (Suc 0) = (\<lambda>t. sin t)"
| "cos_int (Suc (Suc m)) =
     (\<lambda>t. cos t ^ (m + 1) * sin t / real (m + 2) + real (m + 1) / real (m + 2) * cos_int m t)"


section \<open>black\_scholes.py\<close>

definition norm_cdf :: "real \<Rightarrow> real" where
  "norm_cdf x = 0.5 * (1.0 + erf (x / sqrt 2.0))"

definition norm_pdf :: "real \<Rightarrow> real" where
  "norm_pdf x = exp (- 0.5 * x * x) / sqrt (2.0 * pi)"

text \<open>The attributes \<open>S, K, T, r, sigma_hv, sigma_iv\<close> of an \<open>OptionPricer\<close>.\<close>

record pricer =
  pS :: real
  pK :: real
  pT :: real
  pr :: real
  sigma_hv :: real
  sigma_iv :: real

text \<open>\<open>OptionPricer.__init__\<close>: the time to expiry is floored at 0.001.\<close>

definition OptionPricer :: "real \<Rightarrow> real \<Rightarrow> real \<Rightarrow> real \<Rightarrow> real \<Rightarrow> real \<Rightarrow> pricer" where
  "OptionPricer S K T r shv siv =
     \<lparr>pS = S, pK = K, pT = max T 0.001, pr = r, sigma_hv = shv, sigma_iv = siv\<rparr>"

text \<open>\<open>_d1\<close>: the numerator is evaluated first, then the denominator, then the quotient.\<close>

definition d1 :: "pricer \<Rightarrow> real \<Rightarrow> py_error + real" where
  "d1 p sigma =
     pbind (py_div (pS p) (pK p)) (\<lambda>q.
     pbind (math_log q) (\<lambda>l.
     pbind (math_sqrt (pT p)) (\<lambda>s.
       py_div (l + (pr p + 0.5 * sigma\<^sup>2) * pT p) (sigma * s))))"

definition d2 :: "pricer \<Rightarrow> real \<Rightarrow> py_error + real" where
  "d2 p sigma =
     pbind (d1 p sigma) (\<lambda>a.
     pbind (math_sqrt (pT p)) (\<lambda>s. Inr (a - sigma * s)))"

definition bs_call_price :: "pricer \<Rightarrow> real \<Rightarrow> py_error + real" where
  "bs_call_price p sigma =
     pbind (d1 p sigma) (\<lambda>a.
     pbind (d2 p sigma) (\<lambda>b.
       Inr (pS p * norm_cdf a - pK p * exp (- pr p * pT p) * norm_cdf b)))"

definition bs_put_price :: "pricer \<Rightarrow> real \<Rightarrow> py_error + real" where
  "bs_put_price p sigma =
     pbind (d1 p sigma) (\<lambda>a.
     pbind (d2 p sigma) (\<lambda>b.
       Inr (pK p * exp (- pr p * pT p) * norm_cdf (- b) - pS p * norm_cdf (- a))))"

definition get_valuation :: "real \<Rightarrow> real \<Rightarrow> string" where
  "get_valuation phv piv =
     (let diff_pct = (if phv > 0 then ((piv - phv) / phv) * 100 else 0)
      in if diff_pct > 20 then ''EXPENSIVE''
         else if diff_pct < - 20 then ''CHEAP''
         else ''FAIR'')"

text \<open>The dictionary returned by \<open>calculate\<close> and \<open>calculate_put\<close>.\<close>

record pricing =
  price_hv :: real
  price_iv :: real
  mispricing :: real
  mispricing_pct :: real
  valuation :: string

definition calculate :: "pricer \<Rightarrow> py_error + pricing" where
  "calculate p =
     pbind (bs_call_price p (sigma_hv p)) (\<lambda>phv.
     pbind (bs_call_price p (sigma_iv p)) (\<lambda>piv.
       Inr \<lparr>price_hv = phv, price_iv = piv, mispricing = piv - phv,
            mispricing_pct = (if phv > 0 then ((piv - phv) / phv) * 100 else 0),
            valuation = get_valuation phv piv\<rparr>))"

definition calculate_put :: "pricer \<Rightarrow> py_error + pricing" where
  "calculate_put p =
     pbind (bs_put_price p (sigma_hv p)) (\<lambda>phv.
     pbind (bs_put_price p (sigma_iv p)) (\<lambda>piv.
       Inr \<lparr>price_hv = phv, price_iv = piv, mispricing = piv - phv,
            mispricing_pct = (if phv > 0 then ((piv - phv) / phv) * 100 else 0),
            valuation = get_valuation phv piv\<rparr>))"

definition get_d1 :: "pricer \<Rightarrow> py_error + real" where
  "get_d1 p = d1 p (sigma_iv p)"

definition get_d2 :: "pricer \<Rightarrow> py_error + real" where
  "get_d2 p = d2 p (sigma_iv p)"

text \<open>
  The closed formulas of the specification, as functions of real arguments: they are what
  the fallible functions above return when nothing raises.
\<close>

definition bs_d1 :: "real \<Rightarrow> real \<Rightarrow> real \<Rightarrow> real \<Rightarrow> real \<Rightarrow> real" where
  "bs_d1 S K T r sigma = (ln (S / K) + (r + sigma\<^sup>2 / 2) * T) / (sigma * sqrt T)"

definition bs_d2 :: "real \<Rightarrow> real \<Rightarrow> real \<Rightarrow> real \<Rightarrow> real \<Rightarrow> real" where
  "bs_d2 S K T r sigma = bs_d1 S K T r sigma - sigma * sqrt T"

definition call_formula :: "real \<Rightarrow> real \<Rightarrow> real \<Rightarrow> real \<Rightarrow> real \<Rightarrow> real" where
  "call_formula S K T r sigma =
     S * norm_cdf (bs_d1 S K T r sigma) - K * exp (- r * T) * norm_cdf (bs_d2 S K T r sigma)"

definition put_formula :: "real \<Rightarrow> real \<Rightarrow> real \<Rightarrow> real \<Rightarrow> real \<Rightarrow> real" where
  "put_formula S K T r sigma =
     K * exp (- r * T) * norm_cdf (- bs_d2 S K T r sigma) - S * norm_cdf (- bs_d1 S K T r sigma)"


section \<open>greeks.py\<close>

text \<open>\<open>str.lower\<close> on the ASCII letters.\<close>

definition lower_char :: "char \<Rightarrow> char" where
  "lower_char c =
     (case map_of (zip ''ABCDEFGHIJKLMNOPQRSTUVWXYZ'' ''abcdefghijklmnopqrstuvwxyz'') c of
        Some d \<Rightarrow> d
      | None \<Rightarrow> c)"

definition lower :: "string \<Rightarrow> string" where
  "lower s = map lower_char s"

record greeks_calc =
  gS :: real
  gK :: real
  gT :: real
  gr :: real
  gsigma :: real
  gd1 :: real
  gd2 :: real
  option_type :: string

text \<open>\<open>GreeksCalculator.__init__\<close> asks the pricer for \<open>d1\<close> and \<open>d2\<close> at \<open>sigma_iv\<close>.\<close>

definition GreeksCalculator :: "pricer \<Rightarrow> string \<Rightarrow> py_error + greeks_calc" where
  "GreeksCalculator p otype =
     pbind (get_d1 p) (\<lambda>a.
     pbind (get_d2 p) (\<lambda>b.
       Inr \<lparr>gS = pS p, gK = pK p, gT = pT p, gr = pr p, gsigma = sigma_iv p,
            gd1 = a, gd2 = b, option_type = lower otype\<rparr>))"

definition delta :: "greeks_calc \<Rightarrow> real" where
  "delta g = (if option_type g = ''put'' then norm_cdf (gd1 g) - 1 else norm_cdf (gd1 g))"

definition gamma :: "greeks_calc \<Rightarrow> py_error + real" where
  "gamma g =
     pbind (math_sqrt (gT g)) (\<lambda>s.
       py_div (norm_pdf (gd1 g)) (gS g * gsigma g * s))"

definition theta :: "greeks_calc \<Rightarrow> py_error + real" where
  "theta g =
     pbind (math_sqrt (gT g)) (\<lambda>s.
     pbind (py_div (- (gS g * norm_pdf (gd1 g) * gsigma g)) (2 * s)) (\<lambda>term1.
       let term2 = (if option_type g = ''put''
                    then - gr g * gK g * exp (- gr g * gT g) * norm_cdf (- gd2 g)
                    else gr g * gK g * exp (- gr g * gT g) * norm_cdf (gd2 g));
           annual_theta = term1 - term2
       in Inr (annual_theta / 365)))"

definition vega :: "greeks_calc \<Rightarrow> py_error + real" where
  "vega g =
     pbind (math_sqrt (gT g)) (\<lambda>s.
       let raw_vega = gS g * s * norm_pdf (gd1 g) in Inr (raw_vega / 100))"

definition rho :: "greeks_calc \<Rightarrow> real" where
  "rho g =
     (let raw_rho = (if option_type g = ''put''
                     then - gK g * gT g * exp (- gr g * gT g) * norm_cdf (- gd2 g)
                     else gK g * gT g * exp (- gr g * gT g) * norm_cdf (gd2 g))
      in raw_rho / 100)"


section \<open>scenarios.py\<close>

record scenario =
  sc_name :: string
  stock_chg :: real
  vol_chg :: real
  days :: int

definition scenarios :: "scenario list" where
  "scenarios =
     [\<lparr>sc_name = ''Bull Rally'', stock_chg = 0.15, vol_chg = - 0.05, days = 7\<rparr>,
      \<lparr>sc_name = ''Moderate Up'', stock_chg = 0.05, vol_chg = 0.0, days = 7\<rparr>,
      \<lparr>sc_name = ''Flat'', stock_chg = 0.0, vol_chg = 0.0, days = 7\<rparr>,
      \<lparr>sc_name = ''Moderate Down'', stock_chg = - 0.05, vol_chg = 0.05, days = 7\<rparr>,
      \<lparr>sc_name = ''Crash'', stock_chg = - 0.15, vol_chg = 0.20, days = 7\<rparr>,
      \<lparr>sc_name = ''Vol Spike'', stock_chg = 0.0, vol_chg = 0.10, days = 7\<rparr>,
      \<lparr>sc_name = ''Vol Crush'', stock_chg = 0.0, vol_chg = - 0.10, days = 7\<rparr>]"

record scenario_engine =
  eS :: real
  eK :: real
  eT :: real
  er :: real
  esigma :: real
  market_price :: real
  num_contracts :: int

definition ScenarioEngine :: "pricer \<Rightarrow> real \<Rightarrow> int \<Rightarrow> scenario_engine" where
  "ScenarioEngine p mp n =
     \<lparr>eS = pS p, eK = pK p, eT = pT p, er = pr p, esigma = sigma_iv p,
      market_price = mp, num_contracts = n\<rparr>"

text \<open>\<open>_bs_call\<close>: the engine's own copy of the call formula.\<close>

definition bs_call :: "real \<Rightarrow> real \<Rightarrow> real \<Rightarrow> real \<Rightarrow> real \<Rightarrow> py_error + real" where
  "bs_call S K T r sigma =
     pbind (py_div S K) (\<lambda>q.
     pbind (math_log q) (\<lambda>l.
     pbind (math_sqrt T) (\<lambda>s.
     pbind (py_div (l + (r + 0.5 * sigma\<^sup>2) * T) (sigma * s)) (\<lambda>a.
     pbind (math_sqrt T) (\<lambda>s2.
       let b = a - sigma * s2
       in Inr (S * norm_cdf a - K * exp (- r * T) * norm_cdf b))))))"

definition calculate_scenario_pnl :: "scenario_engine \<Rightarrow> real \<Rightarrow> real \<Rightarrow> int \<Rightarrow> py_error + real" where
  "calculate_scenario_pnl e stock_change vol_change dys =
     (let new_S = eS e * (1 + stock_change);
          new_sigma = max (esigma e + vol_change) 0.05;
          new_T = max (eT e - real_of_int dys / 365) 0.001
      in pbind (bs_call new_S (eK e) new_T (er e) new_sigma) (\<lambda>new_price.
           let pnl_per_contract = (new_price - market_price e) * 100
           in Inr (pnl_per_contract * real_of_int (num_contracts e))))"

record scenario_result =
  res_name :: string
  stock_change :: real
  vol_change :: real
  pnl :: real
  pnl_pct :: real

text \<open>The loop of \<open>run\<close> over the scenarios, appending one result per scenario.\<close>

fun run_loop :: "scenario_engine \<Rightarrow> scenario list \<Rightarrow> py_error + scenario_result list" where
  "run_loop e [] = Inr []"
| "run_loop e (s # ss) =
     pbind (calculate_scenario_pnl e (stock_chg s) (vol_chg s) (days s)) (\<lambda>p.
     pbind (py_div p (market_price e * 100 * real_of_int (num_contracts e))) (\<lambda>q.
     pbind (run_loop e ss) (\<lambda>rest.
       Inr (\<lparr>res_name = sc_name s, stock_change = stock_chg s * 100,
             vol_change = vol_chg s * 100, pnl = p, pnl_pct = q * 100\<rparr> # rest))))"

record run_result =
  all_results :: "scenario_result list"
  best :: scenario_result
  worst :: scenario_result

text \<open>
  \<open>sorted\<close> is a stable sort, and so is \<open>sort_key\<close>; \<open>worst\<close> is the first and \<open>best\<close>
  the last element of the sorted list.
\<close>

definition run :: "scenario_engine \<Rightarrow> py_error + run_result" where
  "run e =
     pbind (run_loop e scenarios) (\<lambda>results.
       let sorted_results = sort_key pnl results
       in if sorted_results = [] then Inl IndexError
          else Inr \<lparr>all_results = results, best = last sorted_results,
                    worst = hd sorted_results\<rparr>)"


section \<open>volatility.py\<close>

text \<open>
  A pandas series of floats is a list of \<open>real option\<close>, \<open>None\<close> for NaN.
  \<open>rolling(window=w).std()\<close> is the sample standard deviation (one delta degree of
  freedom) of the trailing \<open>w\<close> values and NaN while fewer than \<open>w\<close> values are there.
\<close>

fun dropna :: "'a option list \<Rightarrow> 'a list" where
  "dropna [] = []"
| "dropna (None # xs) = dropna xs"
| "dropna (Some x # xs) = x # dropna xs"

definition mean_list :: "real list \<Rightarrow> real" where
  "mean_list xs = sum_list xs / real (length xs)"

definition sample_std :: "real list \<Rightarrow> real" where
  "sample_std xs =
     sqrt (sum_list (map (\<lambda>x. (x - mean_list xs)\<^sup>2) xs) / (real (length xs) - 1))"

definition rolling_std :: "nat \<Rightarrow> real list \<Rightarrow> real option list" where
  "rolling_std w xs =
     map (\<lambda>i. if 2 \<le> w \<and> w \<le> i + 1
              then Some (sample_std (take w (drop (i + 1 - w) xs)))
              else None) [0..<length xs]"

definition annualize :: "real option list \<Rightarrow> real option list" where
  "annualize col = map (map_option (\<lambda>v. v * sqrt 252)) col"

text \<open>\<open>VolatilityAnalyzer.__init__\<close>: the log returns without their NaN entries.\<close>

definition VolatilityAnalyzer :: "real option list \<Rightarrow> real list" where
  "VolatilityAnalyzer log_returns = dropna log_returns"

record history =
  col_21d :: "real option list"
  col_63d :: "real option list"
  col_252d :: "real option list"

record hv_result =
  hv_21d :: "real option"
  hv_63d :: "real option"
  hv_252d :: "real option"
  hv_history :: history

text \<open>\<open>.iloc[-1]\<close> raises on an empty series.\<close>

definition iloc_last :: "'a list \<Rightarrow> py_error + 'a" where
  "iloc_last xs = (if xs = [] then Inl IndexError else Inr (last xs))"

text \<open>The frame \<open>history\<close> that the loop over the three windows fills.\<close>

definition history_frame :: "real list \<Rightarrow> history" where
  "history_frame returns =
     \<lparr>col_21d = annualize (rolling_std 21 returns),
      col_63d = annualize (rolling_std 63 returns),
      col_252d = annualize (rolling_std 252 returns)\<rparr>"

definition calculate_historical_vol :: "real list \<Rightarrow> py_error + hv_result" where
  "calculate_historical_vol returns =
     (let h = history_frame returns
      in pbind (iloc_last (col_21d h)) (\<lambda>a.
         pbind (iloc_last (col_63d h)) (\<lambda>b.
         pbind (iloc_last (col_252d h)) (\<lambda>c.
           Inr \<lparr>hv_21d = a, hv_63d = b, hv_252d = c, hv_history = h\<rparr>))))"

record regime =
  label :: string
  percentile :: "real option"

text \<open>
  \<open>(all_hv < current_hv).mean() * 100\<close>: a comparison with NaN is false, and the mean of
  an empty series is NaN; both comparisons of the label are false on NaN.
\<close>

definition lt_current :: "real \<Rightarrow> real option \<Rightarrow> bool" where
  "lt_current v c = (case c of None \<Rightarrow> False | Some x \<Rightarrow> v < x)"

definition determine_regime :: "real list \<Rightarrow> real option \<Rightarrow> regime" where
  "determine_regime returns current_hv =
     (let all_hv = dropna (annualize (rolling_std 21 returns));
          pct = (if all_hv = [] then None
                 else Some (real (length (filter (\<lambda>v. lt_current v current_hv) all_hv))
                            / real (length all_hv) * 100));
          lab = (case pct of
                   None \<Rightarrow> ''NORMAL''
                 | Some q \<Rightarrow> if q > 80 then ''HIGH'' else if q < 20 then ''LOW'' else ''NORMAL'')
      in \<lparr>label = lab, percentile = pct\<rparr>)"

text \<open>\<open>analyze\<close>: the regime is classified at the last 21-day value.\<close>

definition analyze :: "real list \<Rightarrow> py_error + (hv_result \<times> regime)" where
  "analyze returns =
     pbind (calculate_historical_vol returns) (\<lambda>hv.
       Inr (hv, determine_regime returns (hv_21d hv)))"

text \<open>
  The annualized sample standard deviation of the \<open>w\<close> returns that end at position
  \<open>i\<close>, as the specification describes a defined point of the rolling history.
\<close>

definition window_std :: "nat \<Rightarrow> real list \<Rightarrow> nat \<Rightarrow> real" where
  "window_std w xs i = sample_std (take w (drop (i + 1 - w) xs)) * sqrt 252"


section \<open>config.py and data\_loader.py\<close>

record config =
  TARGET_OTM_PCT :: real
  MIN_OTM_PCT :: real
  MAX_OTM_PCT :: real
  MIN_OPEN_INTEREST :: real

definition Config :: config where
  "Config = \<lparr>TARGET_OTM_PCT = 10.0, MIN_OTM_PCT = 5.0, MAX_OTM_PCT = 20.0,
             MIN_OPEN_INTEREST = 100\<rparr>"

text \<open>
  The columns of a chain are read from a file and may hold NaN (a missing volume, say);
  the columns pandas computes may hold infinities and NaN as well, since numpy divides by
  zero without raising: a real, or one of the three special values.  The sign of a zero is
  not modelled.
\<close>

datatype npfloat = NaN | NInf | Fin real | PInf

fun np_div :: "npfloat \<Rightarrow> npfloat \<Rightarrow> npfloat" where
  "np_div NaN y = NaN"
| "np_div x NaN = NaN"
| "np_div (Fin a) (Fin b) =
     (if b \<noteq> 0 then Fin (a / b)
      else if a = 0 then NaN
      else if a > 0 then PInf
      else NInf)"
| "np_div (Fin a) PInf = Fin 0"
| "np_div (Fin a) NInf = Fin 0"
| "np_div PInf (Fin b) = (if b \<ge> 0 then PInf else NInf)"
| "np_div NInf (Fin b) = (if b \<ge> 0 then NInf else PInf)"
| "np_div PInf PInf = NaN"
| "np_div PInf NInf = NaN"
| "np_div NInf PInf = NaN"
| "np_div NInf NInf = NaN"

fun np_neg :: "npfloat \<Rightarrow> npfloat" where
  "np_neg NaN = NaN"
| "np_neg NInf = PInf"
| "np_neg (Fin a) = Fin (- a)"
| "np_neg PInf = NInf"

fun np_abs :: "npfloat \<Rightarrow> npfloat" where
  "np_abs NaN = NaN"
| "np_abs NInf = PInf"
| "np_abs (Fin a) = Fin \<bar>a\<bar>"
| "np_abs PInf = PInf"

fun np_add :: "npfloat \<Rightarrow> npfloat \<Rightarrow> npfloat" where
  "np_add NaN y = NaN"
| "np_add x NaN = NaN"
| "np_add PInf NInf = NaN"
| "np_add NInf PInf = NaN"
| "np_add PInf y = PInf"
| "np_add x PInf = PInf"
| "np_add NInf y = NInf"
| "np_add x NInf = NInf"
| "np_add (Fin a) (Fin b) = Fin (a + b)"

definition np_sub :: "npfloat \<Rightarrow> npfloat \<Rightarrow> npfloat" where
  "np_sub x y = np_add x (np_neg y)"

text \<open>Multiplication by a finite constant.\<close>

fun np_scale :: "npfloat \<Rightarrow> real \<Rightarrow> npfloat" where
  "np_scale NaN c = NaN"
| "np_scale (Fin a) c = Fin (a * c)"
| "np_scale PInf c = (if c = 0 then NaN else if c > 0 then PInf else NInf)"
| "np_scale NInf c = (if c = 0 then NaN else if c > 0 then NInf else PInf)"

fun np_log1p :: "npfloat \<Rightarrow> npfloat" where
  "np_log1p NaN = NaN"
| "np_log1p NInf = NaN"
| "np_log1p (Fin x) = (if x > - 1 then Fin (ln (1 + x)) else if x = - 1 then NInf else NaN)"
| "np_log1p PInf = PInf"

fun np_ge :: "npfloat \<Rightarrow> real \<Rightarrow> bool" where
  "np_ge NaN c = False"
| "np_ge NInf c = False"
| "np_ge (Fin a) c = (a \<ge> c)"
| "np_ge PInf c = True"

fun np_le :: "npfloat \<Rightarrow> real \<Rightarrow> bool" where
  "np_le NaN c = False"
| "np_le NInf c = True"
| "np_le (Fin a) c = (a \<le> c)"
| "np_le PInf c = False"

text \<open>
  The strict order of the values that are not NaN; every comparison with NaN is false.
  \<open>x > y\<close> of the source is \<open>np_less y x\<close>.
\<close>

fun np_less :: "npfloat \<Rightarrow> npfloat \<Rightarrow> bool" where
  "np_less NaN y = False"
| "np_less x NaN = False"
| "np_less x NInf = False"
| "np_less NInf y = True"
| "np_less PInf y = False"
| "np_less x PInf = True"
| "np_less (Fin a) (Fin b) = (a < b)"

text \<open>One row of an option chain, and the same row with the column \<open>pct_otm\<close>.\<close>

record chain_row =
  contractSymbol :: string
  strike :: npfloat
  lastPrice :: npfloat
  bid :: npfloat
  ask :: npfloat
  openInterest :: npfloat
  volume :: npfloat
  impliedVolatility :: npfloat

record otm_row = chain_row +
  pct_otm :: npfloat

text \<open>The dictionary that describes the selected contract.\<close>

record selection =
  sel_contract :: string
  sel_strike :: npfloat
  sel_last_price :: npfloat
  sel_bid :: npfloat
  sel_ask :: npfloat
  sel_mid_price :: npfloat
  sel_open_interest :: int
  sel_volume :: int
  sel_implied_volatility :: npfloat
  sel_pct_otm :: npfloat

text \<open>
  \<open>int\<close> of a float truncates towards zero; it raises \<open>ValueError\<close> on NaN and
  \<open>OverflowError\<close> on an infinity.
\<close>

definition py_trunc :: "real \<Rightarrow> int" where
  "py_trunc x = (if 0 \<le> x then \<lfloor>x\<rfloor> else \<lceil>x\<rceil>)"

fun py_int :: "npfloat \<Rightarrow> py_error + int" where
  "py_int NaN = Inl ValueError"
| "py_int NInf = Inl OverflowError"
| "py_int (Fin x) = Inr (py_trunc x)"
| "py_int PInf = Inl OverflowError"

definition strict_tier :: "config \<Rightarrow> otm_row list \<Rightarrow> otm_row list" where
  "strict_tier cfg otm =
     filter (\<lambda>row. np_ge (pct_otm row) (MIN_OTM_PCT cfg) \<and> np_le (pct_otm row) (MAX_OTM_PCT cfg)
                 \<and> np_less (Fin (MIN_OPEN_INTEREST cfg)) (openInterest row)) otm"

definition relaxed_tier :: "otm_row list \<Rightarrow> otm_row list" where
  "relaxed_tier otm = filter (\<lambda>row. np_less (Fin 50) (openInterest row)) otm"

definition score :: "config \<Rightarrow> otm_row \<Rightarrow> npfloat" where
  "score cfg row =
     (let spread = np_sub (ask row) (bid row);
          spread_pct = np_scale (np_div spread (lastPrice row)) 100;
          target = TARGET_OTM_PCT cfg
      in np_sub
           (np_add (np_scale (np_neg (np_abs (np_sub (pct_otm row) (Fin target)))) 2)
                   (np_scale (np_log1p (openInterest row)) 1.5))
           (np_scale spread_pct 0.5))"

text \<open>
  \<open>Series.idxmax\<close> skips NaN by reading it as minus infinity, takes the first position
  of the maximum, and has no position to give when every value is NaN; the lookup of that
  missing label then raises.
\<close>

fun fill_nan :: "npfloat \<Rightarrow> npfloat" where
  "fill_nan NaN = NInf"
| "fill_nan x = x"

fun argmax_from :: "npfloat list \<Rightarrow> nat \<Rightarrow> nat \<Rightarrow> npfloat \<Rightarrow> nat" where
  "argmax_from [] i b v = b"
| "argmax_from (x # xs) i b v =
     (if np_less v x then argmax_from xs (i + 1) i x else argmax_from xs (i + 1) b v)"

definition idxmax :: "npfloat list \<Rightarrow> py_error + nat" where
  "idxmax vs =
     (if list_all (\<lambda>v. v = NaN) vs then Inl KeyError
      else case map fill_nan vs of
             [] \<Rightarrow> Inl KeyError
           | x # xs \<Rightarrow> Inr (argmax_from xs 1 0 x))"

text \<open>
  The returned dictionary, given the two converted integers; its entries are evaluated
  in order, so the open interest is converted before the volume.
\<close>

definition selection_dict :: "otm_row \<Rightarrow> int \<Rightarrow> int \<Rightarrow> selection" where
  "selection_dict row oi vol =
     \<lparr>sel_contract = contractSymbol row, sel_strike = strike row,
      sel_last_price = lastPrice row, sel_bid = bid row, sel_ask = ask row,
      sel_mid_price = np_div (np_add (bid row) (ask row)) (Fin 2),
      sel_open_interest = oi, sel_volume = vol,
      sel_implied_volatility = impliedVolatility row, sel_pct_otm = pct_otm row\<rparr>"

definition to_selection :: "otm_row \<Rightarrow> py_error + selection" where
  "to_selection row =
     pbind (py_int (openInterest row)) (\<lambda>oi.
     pbind (py_int (volume row)) (\<lambda>vol.
       Inr (selection_dict row oi vol)))"

text \<open>\<open>_filter_and_score\<close>: \<open>None\<close> is the result without a contract.\<close>

definition filter_and_score :: "config \<Rightarrow> otm_row list \<Rightarrow> py_error + selection option" where
  "filter_and_score cfg otm =
     (let filtered = strict_tier cfg otm;
          filtered = (if filtered = [] then relaxed_tier otm else filtered)
      in if filtered = [] then Inr None
         else pbind (idxmax (map (score cfg) filtered)) (\<lambda>i.
              pbind (to_selection (filtered ! i)) (\<lambda>best.
                Inr (Some best))))"

text \<open>The tier that is scored: the strict one, or the relaxed one when the strict one is empty.\<close>

definition first_tier :: "config \<Rightarrow> otm_row list \<Rightarrow> otm_row list" where
  "first_tier cfg otm = (if strict_tier cfg otm = [] then relaxed_tier otm else strict_tier cfg otm)"

definition with_pct_otm :: "npfloat \<Rightarrow> chain_row \<Rightarrow> otm_row" where
  "with_pct_otm v row = chain_row.extend row \<lparr>pct_otm = v\<rparr>"

definition select_option :: "config \<Rightarrow> chain_row list \<Rightarrow> npfloat \<Rightarrow> py_error + selection option" where
  "select_option cfg chain current_price =
     (let otm = filter (\<lambda>row. np_less current_price (strike row)) chain;
          otm = map (\<lambda>row. with_pct_otm
                   (np_scale (np_div (np_sub (strike row) current_price) current_price) 100) row) otm
      in filter_and_score cfg otm)"

definition select_put_option :: "config \<Rightarrow> chain_row list \<Rightarrow> npfloat \<Rightarrow> py_error + selection option" where
  "select_put_option cfg chain current_price =
     (let otm = filter (\<lambda>row. np_less (strike row) current_price) chain;
          otm = map (\<lambda>row. with_pct_otm
                   (np_scale (np_div (np_sub current_price (strike row)) current_price) 100) row) otm
      in filter_and_score cfg otm)"


section \<open>Sample inputs\<close>

text \<open>Concrete positions, return series and quotes on which the claims are evaluated.\<close>

definition crash :: scenario where
  "crash = \<lparr>sc_name = ''Crash'', stock_chg = - 0.15, vol_chg = 0.20, days = 7\<rparr>"

definition engine0 :: scenario_engine where
  "engine0 = \<lparr>eS = 100, eK = 110, eT = 35 / 365, er = 0.045, esigma = 0.3,
      market_price = 2, num_contracts = 10\<rparr>"

definition returns_flat :: "real list" where
  "returns_flat = replicate 22 0"

definition returns_jump :: "real list" where
  "returns_jump = replicate 21 0 @ [1]"

definition quote_a :: chain_row where
  "quote_a = \<lparr>contractSymbol = ''NVDA-C-110-A'', strike = Fin 110, lastPrice = Fin 1,
      bid = Fin 1, ask = Fin (11 / 10), openInterest = Fin 500, volume = Fin 40,
      impliedVolatility = Fin (3 / 10)\<rparr>"

definition quote_b :: chain_row where
  "quote_b = \<lparr>contractSymbol = ''NVDA-C-110-B'', strike = Fin 110, lastPrice = Fin 1,
      bid = Fin 1, ask = Fin (11 / 10), openInterest = Fin 500, volume = Fin 40,
      impliedVolatility = Fin (3 / 10)\<rparr>"

definition quote_untraded :: chain_row where
  "quote_untraded = \<lparr>contractSymbol = ''NVDA-C-110-U'', strike = Fin 110, lastPrice = Fin 0,
      bid = Fin 0, ask = Fin 0, openInterest = Fin 500, volume = Fin 0,
      impliedVolatility = Fin (3 / 10)\<rparr>"

definition quote_no_volume :: chain_row where
  "quote_no_volume = \<lparr>contractSymbol = ''NVDA-C-110-N'', strike = Fin 110, lastPrice = Fin 1,
      bid = Fin 1, ask = Fin (11 / 10), openInterest = Fin 500, volume = NaN,
      impliedVolatility = Fin (3 / 10)\<rparr>"

definition thin_vol_pricer :: pricer where
  "thin_vol_pricer = OptionPricer 100 100 (372 / 365) 0 (1 / 100) (1 / 100)"

definition thin_vol_engine :: scenario_engine where
  "thin_vol_engine = ScenarioEngine thin_vol_pricer 1 10"

definition short_pricer :: pricer where
  "short_pricer = OptionPricer 100 95 (9132 / 365) 0 (1 / 20) (1 / 20)"

definition short_engine :: scenario_engine where
  "short_engine = ScenarioEngine short_pricer 1 (- 1)"


section \<open>Facts about the error function\<close>

lemma erf_term_summable: "summable (erf_term x)"
proof (rule summable_comparison_test)
  have "summable (\<lambda>k. (2 / sqrt pi * \<bar>x\<bar>) * (inverse (fact k) * (x\<^sup>2) ^ k))"
    by (rule summable_mult) (rule summable_exp)
  then show "summable (\<lambda>k. (2 / sqrt pi * \<bar>x\<bar>) * (inverse (fact k) * (x\<^sup>2) ^ k))" .
  have "norm (erf_term x k) \<le> (2 / sqrt pi * \<bar>x\<bar>) * (inverse (fact k) * (x\<^sup>2) ^ k)" for k
  proof -
    have "\<bar>x\<bar> ^ (2 * k) = (x\<^sup>2) ^ k"
      by (simp add: power_mult)
    then have "norm (erf_term x k)
        = 2 / sqrt pi * \<bar>x\<bar> * (inverse (fact k) * (x\<^sup>2) ^ k) / real (2 * k + 1)"
      by (simp add: erf_term_def abs_mult power_abs divide_simps)
    also have "\<dots> \<le> 2 / sqrt pi * \<bar>x\<bar> * (inverse (fact k) * (x\<^sup>2) ^ k) / 1"
      by (intro divide_left_mono mult_nonneg_nonneg) auto
    finally show ?thesis by simp
  qed
  then show "\<exists>N. \<forall>n\<ge>N. norm (erf_term x n)
      \<le> (2 / sqrt pi * \<bar>x\<bar>) * (inverse (fact n) * (x\<^sup>2) ^ n)"
    by blast
qed

lemma erf_series_eq:
  "(\<lambda>n. erf_coeff n * x ^ n) = (\<lambda>n. if even n then 0 else erf_term x ((n - 1) div 2))"
proof
  fix n :: nat
  show "erf_coeff n * x ^ n = (if even n then 0 else erf_term x ((n - 1) div 2))"
  proof (cases "even n")
    case True
    then show ?thesis by (simp add: erf_coeff_def)
  next
    case False
    then obtain k where n: "n = 2 * k + 1" by (auto elim: oddE)
    then show ?thesis by (simp add: erf_coeff_def erf_term_def)
  qed
qed

lemma erf_series_sums: "(\<lambda>n. erf_coeff n * x ^ n) sums (\<Sum>k. erf_term x k)"
  unfolding erf_series_eq by (rule sums_if') (rule summable_sums [OF erf_term_summable])

lemma erf_series_summable: "summable (\<lambda>n. erf_coeff n * x ^ n)"
  using erf_series_sums by (rule sums_summable)

lemma erf_eq_suminf_term: "erf x = (\<Sum>k. erf_term x k)"
  unfolding erf_def using erf_series_sums by (rule sums_unique [symmetric])

lemma erf_zero: "erf 0 = 0"
  by (simp add: erf_eq_suminf_term erf_term_def)

lemma erf_minus: "erf (- x) = - erf x"
proof -
  have "erf_term (- x) = (\<lambda>k. - erf_term x k)"
    by (rule ext) (simp add: erf_term_def)
  then show ?thesis
    by (simp add: erf_eq_suminf_term suminf_minus [OF erf_term_summable])
qed

lemma diffs_erf_coeff:
  "diffs erf_coeff n = (if even n then 2 / sqrt pi * (- 1) ^ (n div 2) / fact (n div 2) else 0)"
  by (simp add: diffs_def erf_coeff_def)

lemma erf_deriv_series: "(\<lambda>n. diffs erf_coeff n * x ^ n) sums (2 / sqrt pi * exp (- x\<^sup>2))"
proof -
  have "(\<lambda>k. (- x\<^sup>2) ^ k /\<^sub>R fact k) sums exp (- x\<^sup>2)"
    by (rule exp_converges)
  then have "(\<lambda>k. 2 / sqrt pi * ((- x\<^sup>2) ^ k /\<^sub>R fact k)) sums (2 / sqrt pi * exp (- x\<^sup>2))"
    by (rule sums_mult)
  then have "(\<lambda>n. if even n then 2 / sqrt pi * ((- x\<^sup>2) ^ (n div 2) /\<^sub>R fact (n div 2)) else 0)
      sums (2 / sqrt pi * exp (- x\<^sup>2))"
    using sums_if [OF sums_zero, of "\<lambda>k. 2 / sqrt pi * ((- x\<^sup>2) ^ k /\<^sub>R fact k)"] by simp
  also have "(\<lambda>n. if even n then 2 / sqrt pi * ((- x\<^sup>2) ^ (n div 2) /\<^sub>R fact (n div 2)) else 0)
      = (\<lambda>n. diffs erf_coeff n * x ^ n)"
  proof
    fix n :: nat
    show "(if even n then 2 / sqrt pi * ((- x\<^sup>2) ^ (n div 2) /\<^sub>R fact (n div 2)) else 0)
      = diffs erf_coeff n * x ^ n"
    proof (cases "even n")
      case True
      then obtain k where n: "n = 2 * k" by (auto elim: evenE)
      have "(- x\<^sup>2) ^ k = (- 1) ^ k * x ^ (2 * k)"
        by (simp add: power_mult power_minus [of "x\<^sup>2"])
      with n show ?thesis
        by (simp add: diffs_erf_coeff divide_simps)
    next
      case False
      then show ?thesis by (simp add: diffs_erf_coeff)
    qed
  qed
  finally show ?thesis .
qed

lemma DERIV_erf: "(erf has_real_derivative (2 / sqrt pi * exp (- x\<^sup>2))) (at x)"
proof -
  have "((\<lambda>x. \<Sum>n. erf_coeff n * x ^ n) has_field_derivative
      (\<Sum>n. diffs erf_coeff n * x ^ n)) (at x)"
    by (rule termdiffs_strong_converges_everywhere) (rule erf_series_summable)
  moreover have "(\<Sum>n. diffs erf_coeff n * x ^ n) = 2 / sqrt pi * exp (- x\<^sup>2)"
    using erf_deriv_series by (rule sums_unique [symmetric])
  moreover have "(\<lambda>x. \<Sum>n. erf_coeff n * x ^ n) = erf"
    by (rule ext) (simp add: erf_def)
  ultimately show ?thesis by simp
qed


section \<open>The pricer returns the closed formulas\<close>

lemma d1_ok:
  assumes "0 < pS p" "0 < pK p" "0 < pT p" "0 < sigma"
  shows "d1 p sigma = Inr (bs_d1 (pS p) (pK p) (pT p) (pr p) sigma)"
proof -
  have "0 < pS p / pK p" using assms by simp
  then have "\<not> pS p / pK p \<le> 0" by simp
  with assms show ?thesis
    by (simp add: d1_def pbind_def py_div_def math_log_def math_sqrt_def bs_d1_def)
qed

lemma d2_ok:
  assumes "0 < pS p" "0 < pK p" "0 < pT p" "0 < sigma"
  shows "d2 p sigma = Inr (bs_d2 (pS p) (pK p) (pT p) (pr p) sigma)"
  using assms by (simp add: d2_def d1_ok pbind_def math_sqrt_def bs_d2_def)

lemma bs_call_price_ok:
  assumes "0 < pS p" "0 < pK p" "0 < pT p" "0 < sigma"
  shows "bs_call_price p sigma = Inr (call_formula (pS p) (pK p) (pT p) (pr p) sigma)"
  using assms by (simp add: bs_call_price_def d1_ok d2_ok pbind_def call_formula_def)

lemma bs_put_price_ok:
  assumes "0 < pS p" "0 < pK p" "0 < pT p" "0 < sigma"
  shows "bs_put_price p sigma = Inr (put_formula (pS p) (pK p) (pT p) (pr p) sigma)"
  using assms by (simp add: bs_put_price_def d1_ok d2_ok pbind_def put_formula_def)

lemma get_valuation_cases:
  "get_valuation phv piv =
     (if (if phv > 0 then ((piv - phv) / phv) * 100 else 0) > 20 then ''EXPENSIVE''
      else if (if phv > 0 then ((piv - phv) / phv) * 100 else 0) < - 20 then ''CHEAP''
      else ''FAIR'')"
  by (simp add: get_valuation_def Let_def)


section \<open>The error function is bounded by one\<close>

lemma DERIV_cos_int: "(cos_int m has_real_derivative cos t ^ m) (at t)"
proof (induction m arbitrary: t rule: cos_int.induct)
  case 1
  show ?case by simp
next
  case 2
  show ?case by (auto intro!: derivative_eq_intros)
next
  case (3 m)
  have ih: "(cos_int m has_real_derivative cos t ^ m) (at t)" by (rule "3.IH")
  have c: "((\<lambda>t. cos t ^ (m + 1)) has_real_derivative
      real (m + 1) * cos t ^ m * (- sin t)) (at t)"
    using DERIV_power [OF DERIV_cos, of "Suc m" t] by (simp add: mult_ac)
  have p: "((\<lambda>t. cos t ^ (m + 1) * sin t) has_real_derivative
      (real (m + 1) * cos t ^ m * (- sin t)) * sin t + cos t ^ (m + 1) * cos t) (at t)"
    using DERIV_mult [OF c DERIV_sin] by (simp add: mult_ac)
  have d: "((\<lambda>t. cos t ^ (m + 1) * sin t / real (m + 2)) has_real_derivative
      ((real (m + 1) * cos t ^ m * (- sin t)) * sin t + cos t ^ (m + 1) * cos t) / real (m + 2))
      (at t)"
    by (rule DERIV_cdivide [OF p])
  have e: "((\<lambda>t. real (m + 1) / real (m + 2) * cos_int m t) has_real_derivative
      real (m + 1) / real (m + 2) * cos t ^ m) (at t)"
    by (rule DERIV_cmult [OF ih])
  have "((\<lambda>t. cos t ^ (m + 1) * sin t / real (m + 2) + real (m + 1) / real (m + 2) * cos_int m t)
      has_real_derivative
        ((real (m + 1) * cos t ^ m * (- sin t)) * sin t + cos t ^ (m + 1) * cos t) / real (m + 2)
          + real (m + 1) / real (m + 2) * cos t ^ m) (at t)"
    by (rule DERIV_add [OF d e])
  moreover have "((real (m + 1) * cos t ^ m * (- sin t)) * sin t + cos t ^ (m + 1) * cos t) / real (m + 2)
          + real (m + 1) / real (m + 2) * cos t ^ m = cos t ^ (Suc (Suc m))"
  proof -
    have s: "sin t * sin t = 1 - cos t * cos t"
      using sin_cos_squared_add [of t] by (simp add: power2_eq_square algebra_simps)
    have "(real (m + 1) * cos t ^ m * (- sin t)) * sin t + cos t ^ (m + 1) * cos t
        + real (m + 1) * cos t ^ m = real (m + 2) * cos t ^ (Suc (Suc m))"
    proof -
      have s2: "sin t * (sin t * X) = X - cos t * (cos t * X)" for X
        using s by (metis left_diff_distrib mult.assoc mult_1)
      show ?thesis by (simp add: algebra_simps s2)
    qed
    then have "((real (m + 1) * cos t ^ m * (- sin t)) * sin t + cos t ^ (m + 1) * cos t
        + real (m + 1) * cos t ^ m) / real (m + 2) = cos t ^ (Suc (Suc m))"
      by simp
    then show ?thesis by (simp only: add_divide_distrib times_divide_eq_left)
  qed
  ultimately show ?case
    by simp
qed


lemma cos_int_at_zero: "cos_int m 0 = 0"
  by (induction m rule: cos_int.induct) simp_all

lemma cos_int_half_pi_Suc_Suc:
  "cos_int (Suc (Suc m)) (pi / 2) = real (m + 1) / real (m + 2) * cos_int m (pi / 2)"
  by simp

lemma cos_int_half_pi_pos: "0 < cos_int m (pi / 2)"
  by (induction m rule: cos_int.induct) simp_all

lemma wallis_step_aux:
  fixes a p :: real
  assumes "0 < a"
  shows "a / (a + 1) * (p / (2 * a)) = p / (2 * (a + 1))"
proof -
  have "a \<noteq> 0" "a + 1 \<noteq> 0" using assms by simp_all
  then show ?thesis by (simp add: divide_simps)
qed

lemma wallis_square_aux:
  fixes a p x :: real
  assumes "0 < a" "x * (a / (a + 1)) \<le> p / (2 * a)"
  shows "x \<le> p * ((a + 1) / 2) / a\<^sup>2"
proof -
  have nz: "a \<noteq> 0" "a + 1 \<noteq> 0" using assms by simp_all
  have "x * (a / (a + 1)) * ((a + 1) / a) \<le> p / (2 * a) * ((a + 1) / a)"
    using assms by (intro mult_right_mono) simp_all
  also have "x * (a / (a + 1)) * ((a + 1) / a) = x"
    using nz by simp
  also have "p / (2 * a) * ((a + 1) / a) = p * ((a + 1) / 2) / a\<^sup>2"
    using nz by (simp add: power2_eq_square)
  finally show ?thesis .
qed

lemma cos_int_half_pi_product:
  "cos_int m (pi / 2) * cos_int (Suc m) (pi / 2) = pi / (2 * real (m + 1))"
proof (induction m)
  case 0
  show ?case by simp
next
  case (Suc m)
  have "cos_int (Suc m) (pi / 2) * cos_int (Suc (Suc m)) (pi / 2)
      = real (m + 1) / real (m + 2) * (cos_int m (pi / 2) * cos_int (Suc m) (pi / 2))"
    by (simp only: cos_int_half_pi_Suc_Suc) (simp add: mult_ac)
  also have "\<dots> = real (m + 1) / real (m + 2) * (pi / (2 * real (m + 1)))"
    by (simp only: Suc.IH)
  also have "\<dots> = pi / (2 * real (Suc m + 1))"
    using wallis_step_aux [of "real (m + 1)" pi] by (simp add: add.commute)
  finally show ?case .
qed

lemma cos_int_mono:
  assumes "0 \<le> a" "a \<le> b" "b \<le> pi / 2"
  shows "cos_int m a \<le> cos_int m b"
proof (rule DERIV_nonneg_imp_nondecreasing [where f = "cos_int m", OF assms(2)])
  fix t assume "a \<le> t" "t \<le> b"
  then have "0 \<le> cos t"
    using assms by (intro cos_ge_zero) auto
  then have "0 \<le> cos t ^ m" by simp
  then show "\<exists>y. (cos_int m has_real_derivative y) (at t) \<and> 0 \<le> y"
    using DERIV_cos_int by blast
qed

lemma cos_int_half_pi_antimono: "cos_int (Suc m) (pi / 2) \<le> cos_int m (pi / 2)"
proof -
  have "cos_int m 0 - cos_int (Suc m) 0 \<le> cos_int m (pi / 2) - cos_int (Suc m) (pi / 2)"
  proof (rule DERIV_nonneg_imp_nondecreasing
      [where f = "\<lambda>t. cos_int m t - cos_int (Suc m) t" and a = 0 and b = "pi / 2"])
    show "0 \<le> pi / 2" by simp
    fix t :: real assume t: "0 \<le> t" "t \<le> pi / 2"
    then have c0: "0 \<le> cos t" by (intro cos_ge_zero) auto
    have "cos t ^ Suc m \<le> cos t ^ m"
      using c0 cos_le_one [of t] by (simp add: mult_left_le_one_le)
    moreover have "((\<lambda>t. cos_int m t - cos_int (Suc m) t) has_real_derivative
        cos t ^ m - cos t ^ Suc m) (at t)"
      by (rule DERIV_diff [OF DERIV_cos_int DERIV_cos_int])
    ultimately show "\<exists>y. ((\<lambda>t. cos_int m t - cos_int (Suc m) t) has_real_derivative y) (at t)
        \<and> 0 \<le> y"
      by (intro exI [of _ "cos t ^ m - cos t ^ Suc m"]) simp
  qed
  then show ?thesis by (simp add: cos_int_at_zero)
qed

lemma cos_int_half_pi_square:
  "(cos_int (2 * k) (pi / 2))\<^sup>2 \<le> pi * real (k + 1) / (real (2 * k + 1))\<^sup>2"
proof -
  let ?W = "\<lambda>m. cos_int m (pi / 2)"
  have "?W (Suc (Suc (2 * k))) \<le> ?W (Suc (2 * k))"
    by (rule cos_int_half_pi_antimono)
  then have "real (2 * k + 1) / real (2 * k + 2) * ?W (2 * k) \<le> ?W (Suc (2 * k))"
    by (simp only: cos_int_half_pi_Suc_Suc)
  then have "?W (2 * k) * (real (2 * k + 1) / real (2 * k + 2) * ?W (2 * k))
      \<le> ?W (2 * k) * ?W (Suc (2 * k))"
    using cos_int_half_pi_pos [of "2 * k"] by (intro mult_left_mono) simp_all
  also have "\<dots> = pi / (2 * real (2 * k + 1))"
    by (rule cos_int_half_pi_product)
  finally have "(?W (2 * k))\<^sup>2 * (real (2 * k + 1) / real (2 * k + 2))
      \<le> pi / (2 * real (2 * k + 1))"
    by (simp add: power2_eq_square mult_ac)
  then have "(?W (2 * k))\<^sup>2 * (real (2 * k + 1) / (real (2 * k + 1) + 1))
      \<le> pi / (2 * real (2 * k + 1))"
    by (simp add: add.commute)
  then have "(?W (2 * k))\<^sup>2 \<le> pi * ((real (2 * k + 1) + 1) / 2) / (real (2 * k + 1))\<^sup>2"
    by (intro wallis_square_aux) simp_all
  also have "(real (2 * k + 1) + 1) / 2 = real (k + 1)"
    by simp
  finally show ?thesis .
qed


lemma erf_mono:
  assumes "a \<le> b"
  shows "erf a \<le> erf b"
proof (rule DERIV_nonneg_imp_nondecreasing [where f = erf, OF assms])
  fix x :: real
  have "0 \<le> 2 / sqrt pi * exp (- x\<^sup>2)" by simp
  then show "\<exists>y. (erf has_real_derivative y) (at x) \<and> 0 \<le> y"
    using DERIV_erf by blast
qed

lemma erf_nonneg: "0 \<le> x \<Longrightarrow> 0 \<le> erf x"
  using erf_mono [of 0 x] by (simp add: erf_zero)

lemma exp_minus_square_le: "exp (- x\<^sup>2) \<le> 1 / (1 + x\<^sup>2)" for x :: real
proof -
  have "1 + x\<^sup>2 \<le> exp (x\<^sup>2)" by (rule exp_ge_add_one_self)
  moreover have "0 < 1 + x\<^sup>2" by (simp add: add_pos_nonneg)
  ultimately have "1 / exp (x\<^sup>2) \<le> 1 / (1 + x\<^sup>2)"
    by (intro divide_left_mono) simp_all
  then show ?thesis by (simp add: exp_minus inverse_eq_divide)
qed

lemma erf_scaled_le_cos_int:
  assumes "0 \<le> x" "0 < s" "s\<^sup>2 = real (k + 1)"
  shows "sqrt pi / 2 * erf (x * s) / s \<le> cos_int (2 * k) (arctan x)"
proof -
  let ?h = "\<lambda>x. cos_int (2 * k) (arctan x) - sqrt pi / 2 * erf (x * s) / s"
  have "?h 0 \<le> ?h x"
  proof (rule DERIV_nonneg_imp_nondecreasing [where f = ?h, OF assms(1)])
    fix u :: real
    have a1: "((\<lambda>x. cos_int (2 * k) (arctan x)) has_real_derivative
        cos (arctan u) ^ (2 * k) * inverse (1 + u\<^sup>2)) (at u)"
      by (rule DERIV_chain' [OF DERIV_arctan DERIV_cos_int])
    have lin: "((\<lambda>x. x * s) has_real_derivative s) (at u)"
      using DERIV_cmult_right [OF DERIV_ident, of s u] by simp
    have a2: "((\<lambda>x. erf (x * s)) has_real_derivative
        2 / sqrt pi * exp (- (u * s)\<^sup>2) * s) (at u)"
      by (rule DERIV_chain' [OF lin DERIV_erf])
    have a3: "((\<lambda>x. sqrt pi / 2 * erf (x * s) / s) has_real_derivative
        sqrt pi / 2 * (2 / sqrt pi * exp (- (u * s)\<^sup>2) * s) / s) (at u)"
      using DERIV_cdivide [OF DERIV_cmult [OF a2, of "sqrt pi / 2"], of s] by simp
    have d: "(?h has_real_derivative
        cos (arctan u) ^ (2 * k) * inverse (1 + u\<^sup>2)
          - sqrt pi / 2 * (2 / sqrt pi * exp (- (u * s)\<^sup>2) * s) / s) (at u)"
      by (rule DERIV_diff [OF a1 a3])
    have pos: "0 < 1 + u\<^sup>2" by (simp add: add_pos_nonneg)
    have "cos (arctan u) ^ (2 * k) = (1 / (1 + u\<^sup>2)) ^ k"
      using pos by (simp add: cos_arctan power_mult power_divide)
    then have lhs: "cos (arctan u) ^ (2 * k) * inverse (1 + u\<^sup>2) = (1 / (1 + u\<^sup>2)) ^ (k + 1)"
      by (simp add: inverse_eq_divide)
    have e1: "sqrt pi / 2 * (2 / sqrt pi * exp (- (u * s)\<^sup>2) * s) / s = exp (- (u * s)\<^sup>2)"
      using assms(2) by simp
    have "- (u * s)\<^sup>2 = real (k + 1) * (- u\<^sup>2)"
      by (simp add: power_mult_distrib assms(3))
    then have "exp (- (u * s)\<^sup>2) = exp (real (k + 1) * (- u\<^sup>2))"
      by (rule arg_cong)
    also have "\<dots> = exp (- u\<^sup>2) ^ (k + 1)"
      by (rule exp_of_nat_mult)
    also have "\<dots> \<le> (1 / (1 + u\<^sup>2)) ^ (k + 1)"
      by (intro power_mono exp_minus_square_le) simp
    finally have "exp (- (u * s)\<^sup>2) \<le> (1 / (1 + u\<^sup>2)) ^ (k + 1)" .
    then have "0 \<le> cos (arctan u) ^ (2 * k) * inverse (1 + u\<^sup>2)
          - sqrt pi / 2 * (2 / sqrt pi * exp (- (u * s)\<^sup>2) * s) / s"
      by (simp only: lhs e1 diff_ge_0_iff_ge)
    with d show "\<exists>y. (?h has_real_derivative y) (at u) \<and> 0 \<le> y" by blast
  qed
  then show ?thesis by (simp add: cos_int_at_zero erf_zero)
qed

lemma erf_le_one_plus:
  assumes "0 \<le> y"
  shows "erf y \<le> 1 + 1 / real (2 * k + 1)"
proof -
  define s where "s = sqrt (real (k + 1))"
  have s_pos: "0 < s" and s_sq: "s\<^sup>2 = real (k + 1)"
    by (simp_all add: s_def)
  define g where "g = sqrt pi / 2 * erf y"
  have g_nonneg: "0 \<le> g"
    using erf_nonneg [OF assms] by (simp add: g_def)
  have "sqrt pi / 2 * erf (y / s * s) / s \<le> cos_int (2 * k) (arctan (y / s))"
    using assms s_pos by (intro erf_scaled_le_cos_int [OF _ s_pos s_sq]) simp
  also have "\<dots> \<le> cos_int (2 * k) (pi / 2)"
    using assms s_pos arctan_ubound [of "y / s"]
    by (intro cos_int_mono) simp_all
  finally have "g / s \<le> cos_int (2 * k) (pi / 2)"
    using s_pos by (simp add: g_def)
  then have "(g / s)\<^sup>2 \<le> (cos_int (2 * k) (pi / 2))\<^sup>2"
    using g_nonneg s_pos by (intro power_mono) simp_all
  also have "\<dots> \<le> pi * real (k + 1) / (real (2 * k + 1))\<^sup>2"
    by (rule cos_int_half_pi_square)
  finally have "g\<^sup>2 / real (k + 1) \<le> pi * real (k + 1) / (real (2 * k + 1))\<^sup>2"
    by (simp add: power_divide s_sq)
  then have "g\<^sup>2 \<le> pi * real (k + 1) / (real (2 * k + 1))\<^sup>2 * real (k + 1)"
    by (simp add: pos_divide_le_eq)
  also have "\<dots> = (sqrt pi * real (k + 1) / real (2 * k + 1))\<^sup>2"
    by (simp add: power2_eq_square)
  finally have "g \<le> sqrt pi * real (k + 1) / real (2 * k + 1)"
    by (rule power2_le_imp_le) simp
  then have "2 / sqrt pi * g \<le> 2 / sqrt pi * (sqrt pi * real (k + 1) / real (2 * k + 1))"
    by (intro mult_left_mono) simp_all
  moreover have "2 / sqrt pi * g = erf y"
    by (simp add: g_def)
  moreover have "2 / sqrt pi * (sqrt pi * real (k + 1) / real (2 * k + 1)) = 1 + 1 / real (2 * k + 1)"
  proof -
    have "2 / sqrt pi * (sqrt pi * real (k + 1) / real (2 * k + 1))
        = (2 * real (k + 1)) / real (2 * k + 1)"
      by simp
    also have "2 * real (k + 1) = real (2 * k + 1) + 1"
      by simp
    also have "(real (2 * k + 1) + 1) / real (2 * k + 1) = 1 + 1 / real (2 * k + 1)"
      by (simp only: add_divide_distrib) simp
    finally show ?thesis .
  qed
  ultimately show ?thesis by simp
qed

lemma erf_le_one_nonneg:
  assumes "0 \<le> y"
  shows "erf y \<le> 1"
proof (rule ccontr)
  assume "\<not> erf y \<le> 1"
  then have "0 < erf y - 1" by simp
  then obtain n where n: "inverse (real (Suc n)) < erf y - 1"
    using reals_Archimedean by blast
  have "1 / real (2 * n + 1) \<le> inverse (real (Suc n))"
    by (simp add: inverse_eq_divide frac_le)
  with n have "1 + 1 / real (2 * n + 1) < erf y" by linarith
  with erf_le_one_plus [OF assms, of n] show False by simp
qed

lemma erf_le_one: "erf x \<le> 1"
proof (cases "0 \<le> x")
  case True
  then show ?thesis by (rule erf_le_one_nonneg)
next
  case False
  then have "erf x \<le> erf 0" by (intro erf_mono) simp
  then show ?thesis by (simp add: erf_zero)
qed

lemma erf_ge_minus_one: "- 1 \<le> erf x"
  using erf_le_one [of "- x"] by (simp add: erf_minus)


section \<open>The normal distribution and the derivatives of the call formula\<close>

lemma norm_cdf_minus: "norm_cdf (- x) = 1 - norm_cdf x"
  by (simp add: norm_cdf_def erf_minus algebra_simps)

lemma square_diff_half: "(a\<^sup>2 - (a - v)\<^sup>2) / 2 = a * v - v * v / 2" for a v :: real
  by (simp add: power2_eq_square field_simps)

lemma norm_cdf_bounds: "0 \<le> norm_cdf x" "norm_cdf x \<le> 1"
  using erf_le_one [of "x / sqrt 2"] erf_ge_minus_one [of "x / sqrt 2"]
  by (simp_all add: norm_cdf_def)

lemma norm_pdf_pos: "0 < norm_pdf x"
  by (simp add: norm_pdf_def)

lemma DERIV_norm_cdf: "(norm_cdf has_real_derivative norm_pdf x) (at x)"
proof -
  have lin: "((\<lambda>x. x / sqrt 2) has_real_derivative 1 / sqrt 2) (at x)"
    using DERIV_cdivide [OF DERIV_ident, of "sqrt 2" x] by simp
  have e: "((\<lambda>x. erf (x / sqrt 2)) has_real_derivative
      2 / sqrt pi * exp (- (x / sqrt 2)\<^sup>2) * (1 / sqrt 2)) (at x)"
    by (rule DERIV_chain' [OF lin DERIV_erf])
  have "((\<lambda>x. 1 + erf (x / sqrt 2)) has_real_derivative
      0 + 2 / sqrt pi * exp (- (x / sqrt 2)\<^sup>2) * (1 / sqrt 2)) (at x)"
    by (rule DERIV_add [OF DERIV_const e])
  then have "((\<lambda>x. 0.5 * (1 + erf (x / sqrt 2))) has_real_derivative
      0.5 * (0 + 2 / sqrt pi * exp (- (x / sqrt 2)\<^sup>2) * (1 / sqrt 2))) (at x)"
    by (rule DERIV_cmult)
  moreover have "0.5 * (0 + 2 / sqrt pi * exp (- (x / sqrt 2)\<^sup>2) * (1 / sqrt 2)) = norm_pdf x"
    by (simp add: norm_pdf_def power_divide real_sqrt_mult power2_eq_square)
  moreover have "(\<lambda>x. 0.5 * (1 + erf (x / sqrt 2))) = norm_cdf"
    by (rule ext) (simp add: norm_cdf_def)
  ultimately show ?thesis by simp
qed

lemma norm_pdf_ratio:
  "norm_pdf b = norm_pdf a * exp ((a\<^sup>2 - b\<^sup>2) / 2)"
proof -
  have "exp (- 0.5 * b * b) = exp (- 0.5 * a * a) * exp ((a\<^sup>2 - b\<^sup>2) / 2)"
    by (simp add: exp_add [symmetric] power2_eq_square field_simps)
  then show ?thesis by (simp add: norm_pdf_def)
qed

lemma pdf_identity:
  assumes "0 < S" "0 < K" "0 < T" "0 < sigma"
  shows "S * norm_pdf (bs_d1 S K T r sigma) = K * exp (- r * T) * norm_pdf (bs_d2 S K T r sigma)"
proof -
  let ?a = "bs_d1 S K T r sigma" and ?b = "bs_d2 S K T r sigma"
  let ?v = "sigma * sqrt T"
  have v: "?v \<noteq> 0" "?v * ?v = sigma\<^sup>2 * T" using assms by (simp_all add: power2_eq_square)
  have av: "?a * ?v = ln (S / K) + (r + sigma\<^sup>2 / 2) * T"
    using v(1) by (simp add: bs_d1_def)
  have "(?a\<^sup>2 - ?b\<^sup>2) / 2 = ?a * ?v - ?v * ?v / 2"
    unfolding bs_d2_def by (rule square_diff_half)
  also have "\<dots> = ln (S / K) + r * T"
    by (simp only: av v(2)) (simp add: algebra_simps)
  finally have "norm_pdf ?b = norm_pdf ?a * exp (ln (S / K) + r * T)"
    using norm_pdf_ratio [of ?b ?a] by simp
  also have "\<dots> = norm_pdf ?a * (S / K) * exp (r * T)"
    using assms by (simp add: exp_add)
  finally have "K * exp (- r * T) * norm_pdf ?b
      = K * exp (- r * T) * (norm_pdf ?a * (S / K) * exp (r * T))" by simp
  also have "\<dots> = S * norm_pdf ?a * (exp (- r * T) * exp (r * T))"
    using assms by simp
  also have "exp (- r * T) * exp (r * T) = 1"
    by (simp add: exp_add [symmetric])
  finally show ?thesis by simp
qed


lemma DERIV_price_generic:
  fixes a v s q :: "real \<Rightarrow> real"
  assumes a: "(a has_real_derivative D) (at x)"
    and v: "(v has_real_derivative V) (at x)"
    and s: "(s has_real_derivative S') (at x)"
    and q: "(q has_real_derivative Q') (at x)"
    and ident: "s x * norm_pdf (a x) = q x * norm_pdf (a x - v x)"
  shows "((\<lambda>x. s x * norm_cdf (a x) - q x * norm_cdf (a x - v x)) has_real_derivative
      S' * norm_cdf (a x) - Q' * norm_cdf (a x - v x) + s x * norm_pdf (a x) * V) (at x)"
proof -
  have b: "((\<lambda>x. a x - v x) has_real_derivative D - V) (at x)"
    by (rule DERIV_diff [OF a v])
  have ca: "((\<lambda>x. norm_cdf (a x)) has_real_derivative norm_pdf (a x) * D) (at x)"
    by (rule DERIV_chain' [OF a DERIV_norm_cdf])
  have cb: "((\<lambda>x. norm_cdf (a x - v x)) has_real_derivative norm_pdf (a x - v x) * (D - V)) (at x)"
    by (rule DERIV_chain' [OF b DERIV_norm_cdf])
  have "((\<lambda>x. s x * norm_cdf (a x) - q x * norm_cdf (a x - v x)) has_real_derivative
      (S' * norm_cdf (a x) + norm_pdf (a x) * D * s x)
        - (Q' * norm_cdf (a x - v x) + norm_pdf (a x - v x) * (D - V) * q x)) (at x)"
    by (rule DERIV_diff [OF DERIV_mult [OF s ca] DERIV_mult [OF q cb]])
  moreover have "(S' * norm_cdf (a x) + norm_pdf (a x) * D * s x)
        - (Q' * norm_cdf (a x - v x) + norm_pdf (a x - v x) * (D - V) * q x)
      = S' * norm_cdf (a x) - Q' * norm_cdf (a x - v x) + s x * norm_pdf (a x) * V"
  proof -
    have "norm_pdf (a x - v x) * (D - V) * q x = (q x * norm_pdf (a x - v x)) * (D - V)"
      by (simp add: mult_ac)
    also have "\<dots> = (s x * norm_pdf (a x)) * (D - V)"
      by (simp only: ident)
    finally show ?thesis by (simp add: algebra_simps)
  qed
  ultimately show ?thesis by simp
qed

text \<open>Vega: the derivative of the call formula in the volatility.\<close>

lemma DERIV_call_sigma:
  assumes "0 < S" "0 < K" "0 < T" "0 < sigma"
  shows "((\<lambda>x. call_formula S K T r x) has_real_derivative
      S * norm_pdf (bs_d1 S K T r sigma) * sqrt T) (at sigma)"
proof -
  have nz: "sigma * sqrt T \<noteq> 0" using assms by simp
  have num: "((\<lambda>x. ln (S / K) + (r + x\<^sup>2 / 2) * T) has_real_derivative
      (0 + (0 + 2 * sigma / 2) * T)) (at sigma)"
    by (auto intro!: derivative_eq_intros)
  have den: "((\<lambda>x. x * sqrt T) has_real_derivative sqrt T) (at sigma)"
    using DERIV_cmult_right [OF DERIV_ident, of "sqrt T" sigma] by simp
  have a: "((\<lambda>x. bs_d1 S K T r x) has_real_derivative
      ((0 + (0 + 2 * sigma / 2) * T) * (sigma * sqrt T)
         - (ln (S / K) + (r + sigma\<^sup>2 / 2) * T) * sqrt T) / (sigma * sqrt T * (sigma * sqrt T)))
      (at sigma)"
    unfolding bs_d1_def by (rule DERIV_divide [OF num den nz])
  have "((\<lambda>x. (\<lambda>_. S) x * norm_cdf (bs_d1 S K T r x)
         - (\<lambda>_. K * exp (- r * T)) x * norm_cdf (bs_d1 S K T r x - x * sqrt T))
      has_real_derivative
        0 * norm_cdf (bs_d1 S K T r sigma) - 0 * norm_cdf (bs_d1 S K T r sigma - sigma * sqrt T)
          + S * norm_pdf (bs_d1 S K T r sigma) * sqrt T) (at sigma)"
    by (rule DERIV_price_generic [OF a den DERIV_const DERIV_const])
      (use pdf_identity [OF assms, of r] in \<open>simp add: bs_d2_def\<close>)
  then show ?thesis by (simp add: call_formula_def bs_d2_def)
qed

lemma call_formula_mono_sigma:
  assumes "0 < S" "0 < K" "0 < T" "0 < s1" "s1 \<le> s2"
  shows "call_formula S K T r s1 \<le> call_formula S K T r s2"
proof (rule DERIV_nonneg_imp_nondecreasing [where f = "\<lambda>x. call_formula S K T r x", OF assms(5)])
  fix x assume "s1 \<le> x" "x \<le> s2"
  then have x: "0 < x" using assms(4) by simp
  have "0 \<le> S * norm_pdf (bs_d1 S K T r x) * sqrt T"
    using assms norm_pdf_pos [of "bs_d1 S K T r x"] by simp
  then show "\<exists>y. ((\<lambda>x. call_formula S K T r x) has_real_derivative y) (at x) \<and> 0 \<le> y"
    using DERIV_call_sigma [OF assms(1-3) x] by blast
qed

text \<open>Delta: the derivative of the call formula in the spot price.\<close>

lemma DERIV_call_spot:
  assumes "0 < S" "0 < K" "0 < T" "0 < sigma"
  shows "((\<lambda>x. call_formula x K T r sigma) has_real_derivative
      norm_cdf (bs_d1 S K T r sigma)) (at S)"
proof -
  have nz: "sigma * sqrt T \<noteq> 0" "S / K > 0" using assms by simp_all
  have lg: "((\<lambda>x. ln (x / K)) has_real_derivative (1 / K) / (S / K)) (at S)"
    using nz(2) by (auto intro!: derivative_eq_intros)
  have num: "((\<lambda>x. ln (x / K) + (r + sigma\<^sup>2 / 2) * T) has_real_derivative
      (1 / K) / (S / K) + 0) (at S)"
    by (rule DERIV_add [OF lg DERIV_const])
  have a: "((\<lambda>x. bs_d1 x K T r sigma) has_real_derivative
      ((1 / K) / (S / K) + 0) / (sigma * sqrt T)) (at S)"
    unfolding bs_d1_def by (rule DERIV_cdivide [OF num])
  have "((\<lambda>x. (\<lambda>x. x) x * norm_cdf (bs_d1 x K T r sigma)
         - (\<lambda>_. K * exp (- r * T)) x * norm_cdf (bs_d1 x K T r sigma - (\<lambda>_. sigma * sqrt T) x))
      has_real_derivative
        1 * norm_cdf (bs_d1 S K T r sigma) - 0 * norm_cdf (bs_d1 S K T r sigma - sigma * sqrt T)
          + S * norm_pdf (bs_d1 S K T r sigma) * 0) (at S)"
    by (rule DERIV_price_generic [OF a DERIV_const DERIV_ident DERIV_const])
      (use pdf_identity [OF assms, of r] in \<open>simp add: bs_d2_def\<close>)
  then show ?thesis by (simp add: call_formula_def bs_d2_def)
qed

lemma call_formula_mono_spot:
  assumes "0 < S1" "S1 \<le> S2" "0 < K" "0 < T" "0 < sigma"
  shows "call_formula S1 K T r sigma \<le> call_formula S2 K T r sigma"
proof (rule DERIV_nonneg_imp_nondecreasing [where f = "\<lambda>x. call_formula x K T r sigma", OF assms(2)])
  fix x assume "S1 \<le> x" "x \<le> S2"
  then have x: "0 < x" using assms(1) by simp
  show "\<exists>y. ((\<lambda>x. call_formula x K T r sigma) has_real_derivative y) (at x) \<and> 0 \<le> y"
    using DERIV_call_spot [OF x assms(3-5)] norm_cdf_bounds(1) by blast
qed

text \<open>Minus theta: the derivative of the call formula in the time to expiry.\<close>

lemma DERIV_call_time:
  assumes "0 < S" "0 < K" "0 < T" "0 < sigma"
  shows "((\<lambda>x. call_formula S K x r sigma) has_real_derivative
      r * K * exp (- r * T) * norm_cdf (bs_d2 S K T r sigma)
        + S * norm_pdf (bs_d1 S K T r sigma) * sigma / (2 * sqrt T)) (at T)"
proof -
  have nz: "sigma * sqrt T \<noteq> 0" using assms by simp
  have sq: "(sqrt has_real_derivative inverse (sqrt T) / 2) (at T)"
    using assms by (intro DERIV_real_sqrt) 
  have den: "((\<lambda>x. sigma * sqrt x) has_real_derivative sigma * (inverse (sqrt T) / 2)) (at T)"
    by (rule DERIV_cmult [OF sq])
  have num: "((\<lambda>x. ln (S / K) + (r + sigma\<^sup>2 / 2) * x) has_real_derivative
      (0 + (r + sigma\<^sup>2 / 2))) (at T)"
    by (auto intro!: derivative_eq_intros)
  have a: "((\<lambda>x. bs_d1 S K x r sigma) has_real_derivative
      ((0 + (r + sigma\<^sup>2 / 2)) * (sigma * sqrt T)
         - (ln (S / K) + (r + sigma\<^sup>2 / 2) * T) * (sigma * (inverse (sqrt T) / 2)))
        / (sigma * sqrt T * (sigma * sqrt T))) (at T)"
    unfolding bs_d1_def by (rule DERIV_divide [OF num den nz])
  have q: "((\<lambda>x. K * exp (- r * x)) has_real_derivative K * (exp (- r * T) * (- r))) (at T)"
    by (auto intro!: derivative_eq_intros)
  have "((\<lambda>x. (\<lambda>_. S) x * norm_cdf (bs_d1 S K x r sigma)
         - (\<lambda>x. K * exp (- r * x)) x * norm_cdf (bs_d1 S K x r sigma - sigma * sqrt x))
      has_real_derivative
        0 * norm_cdf (bs_d1 S K T r sigma)
          - K * (exp (- r * T) * (- r)) * norm_cdf (bs_d1 S K T r sigma - sigma * sqrt T)
          + S * norm_pdf (bs_d1 S K T r sigma) * (sigma * (inverse (sqrt T) / 2))) (at T)"
    by (rule DERIV_price_generic [OF a den DERIV_const q])
      (use pdf_identity [OF assms, of r] in \<open>simp add: bs_d2_def\<close>)
  then show ?thesis by (simp add: call_formula_def bs_d2_def inverse_eq_divide mult_ac)
qed


section \<open>The scenario engine returns the call formula\<close>

lemma bs_call_ok:
  assumes "0 < S" "0 < K" "0 < T" "0 < sigma"
  shows "bs_call S K T r sigma = Inr (call_formula S K T r sigma)"
proof -
  have "0 < S / K" using assms by simp
  then have "\<not> S / K \<le> 0" by simp
  with assms show ?thesis
    by (simp add: bs_call_def pbind_def py_div_def math_log_def math_sqrt_def
        call_formula_def bs_d1_def bs_d2_def Let_def)
qed

lemma scenario_cases:
  assumes "s \<in> set scenarios"
  shows "stock_chg s \<ge> - 0.15" "days s = 7"
  using assms by (auto simp add: scenarios_def)


section \<open>The rolling history\<close>

lemma length_rolling_std: "length (annualize (rolling_std w xs)) = length xs"
  by (simp add: annualize_def rolling_std_def)

lemma nth_rolling_std:
  assumes "i < length xs"
  shows "annualize (rolling_std w xs) ! i
     = (if 2 \<le> w \<and> w \<le> i + 1 then Some (window_std w xs i) else None)"
  using assms by (simp add: annualize_def rolling_std_def window_std_def)

lemma dropna_append: "dropna (xs @ ys) = dropna xs @ dropna ys"
  by (induction xs rule: dropna.induct) simp_all

lemma dropna_all_None: "(\<forall>x \<in> set xs. f x = None) \<Longrightarrow> dropna (map f xs) = []"
  by (induction xs) simp_all

lemma dropna_all_Some: "(\<forall>x \<in> set xs. f x = Some (g x)) \<Longrightarrow> dropna (map f xs) = map g xs"
  by (induction xs) simp_all

lemma annualized_rolling_eq:
  "annualize (rolling_std w xs)
     = map (\<lambda>i. if 2 \<le> w \<and> w \<le> i + 1 then Some (window_std w xs i) else None) [0..<length xs]"
  by (simp add: annualize_def rolling_std_def window_std_def)

lemma dropna_rolling:
  assumes "2 \<le> w" "w \<le> length xs"
  shows "dropna (annualize (rolling_std w xs)) = map (window_std w xs) [w - 1..<length xs]"
proof -
  let ?f = "\<lambda>i. if 2 \<le> w \<and> w \<le> i + 1 then Some (window_std w xs i) else None"
  have split: "[0..<length xs] = [0..<w - 1] @ [w - 1..<length xs]"
    using assms by (metis diff_le_self le_trans upt_add_eq_append zero_le le_add_diff_inverse)
  have "dropna (map ?f [0..<w - 1]) = []"
    by (rule dropna_all_None) auto
  moreover have "dropna (map ?f [w - 1..<length xs]) = map (window_std w xs) [w - 1..<length xs]"
    by (rule dropna_all_Some) (use assms in auto)
  ultimately show ?thesis
    unfolding annualized_rolling_eq by (subst split) (simp add: dropna_append)
qed

lemma last_rolling:
  assumes "2 \<le> w" "w \<le> length xs"
  shows "last (annualize (rolling_std w xs)) = Some (last (dropna (annualize (rolling_std w xs))))"
proof -
  have ne: "xs \<noteq> []" using assms by auto
  have "last (annualize (rolling_std w xs)) = annualize (rolling_std w xs) ! (length xs - 1)"
    using ne by (simp add: last_conv_nth length_rolling_std annualize_def rolling_std_def)
  also have "\<dots> = Some (window_std w xs (length xs - 1))"
    using assms ne by (simp add: nth_rolling_std)
  also have "window_std w xs (length xs - 1) = last (map (window_std w xs) [w - 1..<length xs])"
  proof -
    have lt: "w - 1 < length xs" using assms by simp
    then have "[w - 1..<length xs] \<noteq> []" using ne by simp
    then have "last (map (window_std w xs) [w - 1..<length xs])
        = window_std w xs (last [w - 1..<length xs])"
      by (rule last_map)
    also have "last [w - 1..<length xs] = length xs - 1"
      using lt by (rule last_upt)
    finally show ?thesis by simp
  qed
  finally show ?thesis using assms by (simp add: dropna_rolling)
qed

lemma dropna_rolling_short:
  assumes "length xs < w"
  shows "dropna (annualize (rolling_std w xs)) = []"
  unfolding annualized_rolling_eq by (rule dropna_all_None) (use assms in auto)

lemma filter_lt_current_Some: "filter (\<lambda>v. lt_current v (Some c)) vs = filter (\<lambda>v. v < c) vs"
  by (simp add: lt_current_def)

lemma determine_regime_label:
  "label (determine_regime xs c) =
     (case percentile (determine_regime xs c) of
        None \<Rightarrow> ''NORMAL''
      | Some q \<Rightarrow> if q > 80 then ''HIGH'' else if q < 20 then ''LOW'' else ''NORMAL'')"
  by (simp add: determine_regime_def Let_def)

lemma analyze_ok:
  assumes "21 \<le> length xs"
  shows "\<exists>hv. analyze xs = Inr (hv, determine_regime xs (hv_21d hv))
     \<and> hv_21d hv = Some (last (dropna (annualize (rolling_std 21 xs))))
     \<and> hv_history hv = history_frame xs"
proof -
  have ne: "annualize (rolling_std w xs) \<noteq> []" for w
    using assms length_rolling_std [of w xs] by auto
  have "last (annualize (rolling_std 21 xs)) = Some (last (dropna (annualize (rolling_std 21 xs))))"
    using assms by (intro last_rolling) simp_all
  then show ?thesis
    by (simp add: analyze_def calculate_historical_vol_def history_frame_def iloc_last_def
        pbind_def Let_def ne)
qed

lemma filter_split_count:
  fixes c :: real
  assumes "\<forall>v \<in> set vs. v \<le> c"
  shows "length (filter (\<lambda>v. v < c) vs) + length (filter (\<lambda>v. v = c) vs) = length vs"
  using assms by (induction vs) auto


lemma sample_std_zeros: "sample_std (replicate n 0) = 0"
  by (simp add: sample_std_def mean_list_def sum_list_replicate)

lemma upt_20_22: "[20..<22] = [20, 21]"
  by (simp add: upt_rec_numeral)

lemma flat_all_hv: "dropna (annualize (rolling_std 21 returns_flat)) = [0, 0]"
proof -
  have "dropna (annualize (rolling_std 21 returns_flat))
      = map (window_std 21 returns_flat) [20..<22]"
    using dropna_rolling [of 21 returns_flat] by (simp add: returns_flat_def)
  also have "\<dots> = [0, 0]"
    by (simp add: upt_20_22 window_std_def returns_flat_def sample_std_zeros)
  finally show ?thesis .
qed

lemma flat_last: "last (annualize (rolling_std 21 returns_flat)) = Some 0"
  using last_rolling [of 21 returns_flat] by (simp add: flat_all_hv) (simp add: returns_flat_def)

lemma jump_std_pos: "0 < sample_std (replicate 20 0 @ [1])"
proof -
  have m: "mean_list (replicate 20 0 @ [1]) = 1 / 21"
    by (simp add: mean_list_def sum_list_replicate)
  have "sum_list (map (\<lambda>x. (x - 1 / 21)\<^sup>2) (replicate 20 0 @ [1 :: real])) = 420 / 441"
    by (simp add: sum_list_replicate power2_eq_square)
  then show ?thesis
    by (simp add: sample_std_def m)
qed

lemma jump_all_hv:
  "dropna (annualize (rolling_std 21 returns_jump))
     = [0, sample_std (replicate 20 0 @ [1]) * sqrt 252]"
proof -
  have "dropna (annualize (rolling_std 21 returns_jump))
      = map (window_std 21 returns_jump) [20..<22]"
    using dropna_rolling [of 21 returns_jump] by (simp add: returns_jump_def)
  also have "\<dots> = [0, sample_std (replicate 20 0 @ [1]) * sqrt 252]"
    by (simp add: upt_20_22 window_std_def returns_jump_def sample_std_zeros)
  finally show ?thesis .
qed

lemma dropna_rolling_all:
  assumes "2 \<le> w"
  shows "dropna (annualize (rolling_std w xs)) = map (window_std w xs) [w - 1..<length xs]"
proof (cases "w \<le> length xs")
  case True
  with assms show ?thesis by (rule dropna_rolling)
next
  case False
  then show ?thesis by (simp add: dropna_rolling_short)
qed

lemma rolling_column:
  assumes "2 \<le> w"
  shows "length (annualize (rolling_std w xs)) = length xs
    \<and> (\<forall>i < length xs. i < w - 1 \<longrightarrow> annualize (rolling_std w xs) ! i = None)
    \<and> (\<forall>i < length xs. w - 1 \<le> i \<longrightarrow>
          annualize (rolling_std w xs) ! i = Some (window_std w xs i))
    \<and> dropna (annualize (rolling_std w xs)) = map (window_std w xs) [w - 1..<length xs]"
  using assms by (auto simp add: length_rolling_std nth_rolling_std dropna_rolling_all)


section \<open>Pricers built by the constructor\<close>

lemma parity_formula:
  "call_formula S K T r sigma - put_formula S K T r sigma = S - K * exp (- r * T)"
  by (simp add: call_formula_def put_formula_def norm_cdf_minus algebra_simps)

lemma pricer_fields:
  "pS (OptionPricer S K T r shv siv) = S" "pK (OptionPricer S K T r shv siv) = K"
  "pT (OptionPricer S K T r shv siv) = max T 0.001" "pr (OptionPricer S K T r shv siv) = r"
  "sigma_hv (OptionPricer S K T r shv siv) = shv" "sigma_iv (OptionPricer S K T r shv siv) = siv"
  by (simp_all add: OptionPricer_def)

lemma pricer_T_pos: "0 < pT (OptionPricer S K T r shv siv)"
  by (simp add: OptionPricer_def max_def)

lemma pricer_call_ok:
  assumes "0 < S" "0 < K" "0 < sigma"
  shows "bs_call_price (OptionPricer S K T r shv siv) sigma
     = Inr (call_formula S K (max T 0.001) r sigma)"
  using bs_call_price_ok [of "OptionPricer S K T r shv siv" sigma] assms pricer_T_pos [of S K T r shv siv]
  by (simp add: pricer_fields)

lemma pricer_put_ok:
  assumes "0 < S" "0 < K" "0 < sigma"
  shows "bs_put_price (OptionPricer S K T r shv siv) sigma
     = Inr (put_formula S K (max T 0.001) r sigma)"
  using bs_put_price_ok [of "OptionPricer S K T r shv siv" sigma] assms pricer_T_pos [of S K T r shv siv]
  by (simp add: pricer_fields)

lemma greeks_ok:
  assumes "0 < S" "0 < K" "0 < siv"
  shows "GreeksCalculator (OptionPricer S K T r shv siv) otype =
     Inr \<lparr>gS = S, gK = K, gT = max T 0.001, gr = r, gsigma = siv,
          gd1 = bs_d1 S K (max T 0.001) r siv, gd2 = bs_d2 S K (max T 0.001) r siv,
          option_type = lower otype\<rparr>"
  using d1_ok [of "OptionPricer S K T r shv siv" siv] d2_ok [of "OptionPricer S K T r shv siv" siv]
    assms pricer_T_pos [of S K T r shv siv]
  by (simp add: GreeksCalculator_def get_d1_def get_d2_def pbind_def pricer_fields)


section \<open>The contract selector\<close>

lemma np_less_irrefl: "\<not> np_less x x"
  by (cases x) simp_all

lemma np_less_trans: "np_less x y \<Longrightarrow> np_less y z \<Longrightarrow> np_less x z"
  by (cases x; cases y; cases z) simp_all

lemma np_not_less_trans:
  "\<not> np_less v p \<Longrightarrow> np_less v x \<Longrightarrow> p \<noteq> NaN \<Longrightarrow> np_less p x"
  by (cases v; cases p; cases x) simp_all

lemma fill_nan_not_NaN: "fill_nan v \<noteq> NaN"
  by (cases v) simp_all

lemma argmax_from_spec:
  assumes "i \<le> length ys" "b < i" "NaN \<notin> set ys"
    and "\<forall>j<i. \<not> np_less (ys ! b) (ys ! j)"
    and "\<forall>j<b. np_less (ys ! j) (ys ! b)"
  shows "argmax_from (drop i ys) i b (ys ! b) < length ys
    \<and> (\<forall>j<length ys. \<not> np_less (ys ! argmax_from (drop i ys) i b (ys ! b)) (ys ! j))
    \<and> (\<forall>j<argmax_from (drop i ys) i b (ys ! b).
          np_less (ys ! j) (ys ! argmax_from (drop i ys) i b (ys ! b)))"
  using assms
proof (induction "length ys - i" arbitrary: i b)
  case 0
  then have "i = length ys" by simp
  with 0 show ?case by simp
next
  case (Suc n)
  then have i: "i < length ys" by simp
  then have dr: "drop i ys = ys ! i # drop (Suc i) ys"
    by (simp add: Cons_nth_drop_Suc)
  have nn: "ys ! j \<noteq> NaN" if "j < length ys" for j
    using that Suc.prems(3) by (metis nth_mem)
  show ?case
  proof (cases "np_less (ys ! b) (ys ! i)")
    case True
    have a: "\<forall>j<Suc i. \<not> np_less (ys ! i) (ys ! j)"
    proof (intro allI impI)
      fix j assume "j < Suc i"
      then consider "j = i" | "j < i" by linarith
      then show "\<not> np_less (ys ! i) (ys ! j)"
      proof cases
        case 1
        then show ?thesis by (simp add: np_less_irrefl)
      next
        case 2
        then have "\<not> np_less (ys ! b) (ys ! j)" using Suc.prems(4) by simp
        then show ?thesis using True np_less_trans by blast
      qed
    qed
    have b': "\<forall>j<i. np_less (ys ! j) (ys ! i)"
    proof (intro allI impI)
      fix j assume j: "j < i"
      then have "\<not> np_less (ys ! b) (ys ! j)" using Suc.prems(4) by simp
      moreover have "ys ! j \<noteq> NaN" using j i by (intro nn) simp
      ultimately show "np_less (ys ! j) (ys ! i)"
        using True np_not_less_trans by blast
    qed
    have "n = length ys - Suc i" using Suc.hyps(2) by simp
    from Suc.hyps(1) [OF this _ _ Suc.prems(3) a b'] i
    show ?thesis by (simp add: dr True)
  next
    case False
    have a: "\<forall>j<Suc i. \<not> np_less (ys ! b) (ys ! j)"
      using Suc.prems(4) False by (auto simp add: less_Suc_eq)
    have "n = length ys - Suc i" using Suc.hyps(2) by simp
    from Suc.hyps(1) [OF this _ _ Suc.prems(3) a Suc.prems(5)] i Suc.prems(2)
    show ?thesis by (simp add: dr False)
  qed
qed

lemma idxmax_all_NaN:
  assumes "\<forall>v \<in> set vs. v = NaN"
  shows "idxmax vs = Inl KeyError"
  using assms by (simp add: idxmax_def list_all_iff)

lemma idxmax_spec:
  assumes "\<exists>v \<in> set vs. v \<noteq> NaN"
  shows "\<exists>i<length vs. idxmax vs = Inr i
    \<and> (\<forall>j<length vs. \<not> np_less (fill_nan (vs ! i)) (fill_nan (vs ! j)))
    \<and> (\<forall>j<i. np_less (fill_nan (vs ! j)) (fill_nan (vs ! i)))"
proof -
  let ?ys = "map fill_nan vs"
  from assms obtain x xs where vs: "vs = x # xs" by (cases vs) auto
  have notall: "\<not> list_all (\<lambda>v. v = NaN) vs"
    using assms by (auto simp add: list_all_iff)
  have nn: "NaN \<notin> set ?ys" using fill_nan_not_NaN by (auto simp add: image_iff) metis
  define m where "m = argmax_from (drop 1 ?ys) 1 0 (?ys ! 0)"
  have "m < length ?ys
    \<and> (\<forall>j<length ?ys. \<not> np_less (?ys ! m) (?ys ! j))
    \<and> (\<forall>j<m. np_less (?ys ! j) (?ys ! m))"
    unfolding m_def by (rule argmax_from_spec [OF _ _ nn]) (simp_all add: vs np_less_irrefl)
  then have m: "m < length vs"
    and top: "\<forall>j<length vs. \<not> np_less (?ys ! m) (?ys ! j)"
    and first: "\<forall>j<m. np_less (?ys ! j) (?ys ! m)"
    by (simp_all only: length_map) blast+
  have top': "\<forall>j<length vs. \<not> np_less (fill_nan (vs ! m)) (fill_nan (vs ! j))"
    using top m by simp
  have first': "\<forall>j<m. np_less (fill_nan (vs ! j)) (fill_nan (vs ! m))"
  proof (intro allI impI)
    fix j assume "j < m"
    then have "j < length vs" "np_less (?ys ! j) (?ys ! m)"
      using m first by simp_all
    then show "np_less (fill_nan (vs ! j)) (fill_nan (vs ! m))"
      using m by simp
  qed
  have "idxmax vs = Inr m"
    using notall by (simp add: idxmax_def vs m_def)
  with m top' first' show ?thesis by blast
qed

lemma filter_and_score_eq:
  "filter_and_score cfg otm =
     (if first_tier cfg otm = [] then Inr None
      else pbind (idxmax (map (score cfg) (first_tier cfg otm)))
             (\<lambda>i. pbind (to_selection (first_tier cfg otm ! i)) (\<lambda>best. Inr (Some best))))"
  by (simp add: filter_and_score_def first_tier_def Let_def)

lemma first_tier_empty_iff:
  "first_tier cfg otm = [] \<longleftrightarrow> strict_tier cfg otm = [] \<and> relaxed_tier otm = []"
  by (simp add: first_tier_def)

lemma pbind_Inr_None: "pbind m (\<lambda>i. pbind (g i) (\<lambda>best. Inr (Some best))) \<noteq> Inr None"
proof (cases m)
  case (Inl e)
  then show ?thesis by (simp add: pbind_def)
next
  case (Inr i)
  then show ?thesis by (cases "g i") (simp_all add: pbind_def)
qed

lemma to_selection_finite:
  assumes "openInterest row = Fin oi" "volume row = Fin vol"
  shows "to_selection row = Inr (selection_dict row (py_trunc oi) (py_trunc vol))"
  using assms by (simp add: to_selection_def pbind_def)

lemma to_selection_no_volume:
  assumes "openInterest row = Fin oi" "volume row = NaN"
  shows "to_selection row = Inl ValueError"
  using assms by (simp add: to_selection_def pbind_def)

lemma score_quote_a: "score Config (with_pct_otm (Fin 10) quote_a) = Fin (ln 501 * 1.5 - 5)"
  by (simp add: score_def Config_def with_pct_otm_def quote_a_def chain_row.extend_def
      np_sub_def Let_def)

lemma score_quote_b: "score Config (with_pct_otm (Fin 10) quote_b) = Fin (ln 501 * 1.5 - 5)"
  by (simp add: score_def Config_def with_pct_otm_def quote_b_def chain_row.extend_def
      np_sub_def Let_def)

lemma score_quote_no_volume:
  "score Config (with_pct_otm (Fin 10) quote_no_volume) = Fin (ln 501 * 1.5 - 5)"
  by (simp add: score_def Config_def with_pct_otm_def quote_no_volume_def chain_row.extend_def
      np_sub_def Let_def)

lemma tier_quotes:
  "first_tier Config [with_pct_otm (Fin 10) quote_a, with_pct_otm (Fin 10) quote_b]
     = [with_pct_otm (Fin 10) quote_a, with_pct_otm (Fin 10) quote_b]"
  by (simp add: first_tier_def strict_tier_def Config_def with_pct_otm_def quote_a_def
      quote_b_def chain_row.extend_def)

lemma quote_a_fields:
  "openInterest (with_pct_otm (Fin 10) quote_a) = Fin 500"
  "volume (with_pct_otm (Fin 10) quote_a) = Fin 40"
  by (simp_all add: with_pct_otm_def quote_a_def chain_row.extend_def)

text \<open>
  A chain whose only candidate has no volume on file: the row is chosen, and the
  conversion of its volume raises.
\<close>

lemma no_volume_raises:
  "select_option Config [quote_no_volume] (Fin 100) = Inl ValueError"
proof -
  let ?row = "with_pct_otm (Fin 10) quote_no_volume"
  have t: "strict_tier Config [?row] = [?row]"
    by (simp add: strict_tier_def Config_def with_pct_otm_def quote_no_volume_def
        chain_row.extend_def)
  have c: "to_selection ?row = Inl ValueError"
    by (rule to_selection_no_volume [of _ 500])
      (simp_all add: with_pct_otm_def quote_no_volume_def chain_row.extend_def)
  have "select_option Config [quote_no_volume] (Fin 100) = filter_and_score Config [?row]"
    by (simp add: select_option_def Let_def quote_no_volume_def np_sub_def)
  also have "\<dots> = Inl ValueError"
    by (simp add: filter_and_score_def Let_def t score_quote_no_volume idxmax_def pbind_def c)
  finally show ?thesis .
qed


section \<open>Time decay and the Flat scenario\<close>

lemma call_formula_mono_time:
  assumes "0 < S" "0 < K" "0 < T1" "T1 \<le> T2" "0 < sigma" "0 \<le> r"
  shows "call_formula S K T1 r sigma \<le> call_formula S K T2 r sigma"
proof (rule DERIV_nonneg_imp_nondecreasing [where f = "\<lambda>x. call_formula S K x r sigma", OF assms(4)])
  fix x assume "T1 \<le> x" "x \<le> T2"
  then have x: "0 < x" using assms(3) by simp
  have "0 \<le> r * K * exp (- r * x) * norm_cdf (bs_d2 S K x r sigma)"
    using assms norm_cdf_bounds(1) [of "bs_d2 S K x r sigma"] by simp
  moreover have "0 \<le> S * norm_pdf (bs_d1 S K x r sigma) * sigma / (2 * sqrt x)"
    using assms x norm_pdf_pos [of "bs_d1 S K x r sigma"] by simp
  ultimately have "0 \<le> r * K * exp (- r * x) * norm_cdf (bs_d2 S K x r sigma)
        + S * norm_pdf (bs_d1 S K x r sigma) * sigma / (2 * sqrt x)"
    by simp
  then show "\<exists>y. ((\<lambda>x. call_formula S K x r sigma) has_real_derivative y) (at x) \<and> 0 \<le> y"
    using DERIV_call_time [OF assms(1,2) x assms(5)] by blast
qed

lemma call_formula_strict_mono_time:
  assumes "0 < S" "0 < K" "0 < T1" "T1 < T2" "0 < sigma" "0 \<le> r"
  shows "call_formula S K T1 r sigma < call_formula S K T2 r sigma"
proof (rule DERIV_pos_imp_increasing [where f = "\<lambda>x. call_formula S K x r sigma", OF assms(4)])
  fix x assume "T1 \<le> x" "x \<le> T2"
  then have x: "0 < x" using assms(3) by simp
  have "0 \<le> r * K * exp (- r * x) * norm_cdf (bs_d2 S K x r sigma)"
    using assms norm_cdf_bounds(1) [of "bs_d2 S K x r sigma"] by simp
  moreover have "0 < S * norm_pdf (bs_d1 S K x r sigma) * sigma / (2 * sqrt x)"
    using assms x norm_pdf_pos [of "bs_d1 S K x r sigma"] by simp
  ultimately have "0 < r * K * exp (- r * x) * norm_cdf (bs_d2 S K x r sigma)
        + S * norm_pdf (bs_d1 S K x r sigma) * sigma / (2 * sqrt x)"
    by simp
  then show "\<exists>y. ((\<lambda>x. call_formula S K x r sigma) has_real_derivative y) (at x) \<and> 0 < y"
    using DERIV_call_time [OF assms(1,2) x assms(5)] by blast
qed

lemma flat_time_less: "0.001 < T \<Longrightarrow> max (max T 0.001 - 7 / 365) 0.001 < max T (0.001 :: real)"
  by (simp add: max_def)

lemma erf_strict_mono:
  assumes "a < b"
  shows "erf a < erf b"
proof (rule DERIV_pos_imp_increasing [where f = erf, OF assms])
  fix x :: real
  have "0 < 2 / sqrt pi * exp (- x\<^sup>2)" by simp
  then show "\<exists>y. (erf has_real_derivative y) (at x) \<and> 0 < y"
    using DERIV_erf by blast
qed

lemma erf_lower_cubic:
  assumes "0 \<le> x"
  shows "2 / sqrt pi * (x - x ^ 3 / 3) \<le> erf x"
proof -
  let ?h = "\<lambda>x. erf x - 2 / sqrt pi * (x - x ^ 3 / 3)"
  have "?h 0 \<le> ?h x"
  proof (rule DERIV_nonneg_imp_nondecreasing [where f = ?h, OF assms])
    fix u :: real
    have p: "((\<lambda>x. x - x ^ 3 / 3) has_real_derivative 1 - u\<^sup>2) (at u)"
      by (auto intro!: derivative_eq_intros)
    have d: "(?h has_real_derivative
        2 / sqrt pi * exp (- u\<^sup>2) - 2 / sqrt pi * (1 - u\<^sup>2)) (at u)"
      by (rule DERIV_diff [OF DERIV_erf DERIV_cmult [OF p]])
    have "1 + (- u\<^sup>2) \<le> exp (- u\<^sup>2)" by (rule exp_ge_add_one_self)
    then have "2 / sqrt pi * (1 - u\<^sup>2) \<le> 2 / sqrt pi * exp (- u\<^sup>2)"
      by (intro mult_left_mono) simp_all
    then have "0 \<le> 2 / sqrt pi * exp (- u\<^sup>2) - 2 / sqrt pi * (1 - u\<^sup>2)" by simp
    with d show "\<exists>y. (?h has_real_derivative y) (at u) \<and> 0 \<le> y" by blast
  qed
  then show ?thesis by (simp add: erf_zero)
qed

lemma atm_call_formula:
  assumes "0 < S" "0 < T" "0 < sigma"
  shows "call_formula S S T 0 sigma = S * erf (sigma * sqrt T / (2 * sqrt 2))"
proof -
  have nz: "sigma * sqrt T \<noteq> 0" using assms by simp
  have "sigma\<^sup>2 * T / 2 = (sigma * sqrt T) * (sigma * sqrt T) / 2"
    using assms by (simp add: power2_eq_square)
  then have a: "bs_d1 S S T 0 sigma = sigma * sqrt T / 2"
    using assms nz by (simp add: bs_d1_def)
  have b: "bs_d2 S S T 0 sigma = - (sigma * sqrt T / 2)"
    by (simp add: bs_d2_def a)
  show ?thesis
    by (simp add: call_formula_def a b norm_cdf_minus)
      (simp add: norm_cdf_def algebra_simps)
qed

lemma lower_call: "lower ''call'' = ''call''"
  by (simp add: lower_def lower_char_def)

lemma theta_call_ok:
  assumes "0 < gT g" "option_type g \<noteq> ''put''"
  shows "theta g = Inr ((- (gS g * norm_pdf (gd1 g) * gsigma g) / (2 * sqrt (gT g))
      - gr g * gK g * exp (- gr g * gT g) * norm_cdf (gd2 g)) / 365)"
  using assms by (simp add: theta_def math_sqrt_def py_div_def pbind_def Let_def)

lemma theta_call_negative:
  assumes "0 < gT g" "0 < gS g" "0 < gK g" "0 < gsigma g" "0 \<le> gr g"
  shows "(- (gS g * norm_pdf (gd1 g) * gsigma g) / (2 * sqrt (gT g))
      - gr g * gK g * exp (- gr g * gT g) * norm_cdf (gd2 g)) / 365 < 0"
proof -
  have "0 < gS g * norm_pdf (gd1 g) * gsigma g / (2 * sqrt (gT g))"
    using assms norm_pdf_pos [of "gd1 g"] by simp
  moreover have "0 \<le> gr g * gK g * exp (- gr g * gT g) * norm_cdf (gd2 g)"
    using assms norm_cdf_bounds(1) [of "gd2 g"] by simp
  ultimately show ?thesis by simp
qed

lemma flat_is_third: "scenarios ! 2 = \<lparr>sc_name = ''Flat'', stock_chg = 0, vol_chg = 0, days = 7\<rparr>"
  by (simp add: scenarios_def)

lemma engine_fields:
  "eS (ScenarioEngine p mp n) = pS p" "eK (ScenarioEngine p mp n) = pK p"
  "eT (ScenarioEngine p mp n) = pT p" "er (ScenarioEngine p mp n) = pr p"
  "esigma (ScenarioEngine p mp n) = sigma_iv p" "market_price (ScenarioEngine p mp n) = mp"
  "num_contracts (ScenarioEngine p mp n) = n"
  by (simp_all add: ScenarioEngine_def)

lemma flat_pnl_ok:
  assumes "0 < S" "0 < K"
  shows "calculate_scenario_pnl (ScenarioEngine (OptionPricer S K T r shv siv) mp n) 0 0 7
     = Inr ((call_formula S K (max (max T 0.001 - 7 / 365) 0.001) r (max siv 0.05) - mp) * 100
            * real_of_int n)"
proof -
  have "bs_call S K (max (max T 0.001 - 7 / 365) 0.001) r (max siv 0.05)
      = Inr (call_formula S K (max (max T 0.001 - 7 / 365) 0.001) r (max siv 0.05))"
    using assms by (intro bs_call_ok) (simp_all add: max_def)
  then show ?thesis
    by (simp add: calculate_scenario_pnl_def Let_def pbind_def engine_fields pricer_fields)
qed

lemma thin_vol_fields:
  "pS thin_vol_pricer = 100" "pK thin_vol_pricer = 100" "pT thin_vol_pricer = 372 / 365"
  "pr thin_vol_pricer = 0" "sigma_iv thin_vol_pricer = 1 / 100"
  by (simp_all add: thin_vol_pricer_def OptionPricer_def)

lemma sqrt_372_365: "sqrt (372 / 365) < 5"
proof -
  have "sqrt (372 / 365) < sqrt 25" by (subst real_sqrt_less_iff) simp
  then show ?thesis by simp
qed

lemma sqrt2_le: "sqrt 2 \<le> 3 / 2"
proof -
  have "sqrt 2 \<le> sqrt ((3 / 2)\<^sup>2)" by (subst real_sqrt_le_iff) (simp add: power2_eq_square)
  then show ?thesis by simp
qed

lemma sqrt_pi_less_2: "sqrt pi < 2"
proof -
  have "sqrt pi < sqrt 4" by (subst real_sqrt_less_iff) (rule pi_less_4)
  then show ?thesis by simp
qed

lemma thin_flat_above_unshocked:
  "call_formula 100 100 (372 / 365) 0 (1 / 100) < call_formula 100 100 1 0 (1 / 20)"
proof -
  have "1 / 100 * sqrt (372 / 365) < 1 / 20 * sqrt 1"
    using sqrt_372_365 by simp
  then have "1 / 100 * sqrt (372 / 365) / (2 * sqrt 2) < 1 / 20 * sqrt 1 / (2 * sqrt 2)"
    by (intro divide_strict_right_mono) simp_all
  then have "erf (1 / 100 * sqrt (372 / 365) / (2 * sqrt 2)) < erf (1 / 20 * sqrt 1 / (2 * sqrt 2))"
    by (rule erf_strict_mono)
  then show ?thesis
    by (simp add: atm_call_formula)
qed

lemma thin_flat_above_one: "1 < call_formula 100 100 1 0 (1 / 20)"
proof -
  have x: "(1 / 60 :: real) \<le> 1 / 20 / (2 * sqrt 2)"
    using sqrt2_le by (simp add: field_simps)
  have "(1 / 100 :: real) < 1 * (1 / 60 - (1 / 60) ^ 3 / 3)" by (simp add: power3_eq_cube)
  also have "\<dots> \<le> 2 / sqrt pi * (1 / 60 - (1 / 60) ^ 3 / 3)"
    using sqrt_pi_less_2 by (intro mult_right_mono) (simp_all add: field_simps)
  also have "\<dots> \<le> erf (1 / 60)"
    by (rule erf_lower_cubic) simp
  also have "\<dots> \<le> erf (1 / 20 / (2 * sqrt 2))"
    using x by (rule erf_mono)
  finally have "1 < 100 * erf (1 / 20 / (2 * sqrt 2))" by simp
  then show ?thesis by (simp add: atm_call_formula)
qed

text \<open>
  The market price is an input of its own.  At a volatility of twenty percent, above the
  floor, and a market price of 1, below the value of the option, the Flat scenario
  reports a gain.
\<close>

lemma cheap_flat_above_one: "1 < call_formula 100 100 (358 / 365) 0 (1 / 5)"
proof -
  have "(1 / 4 :: real) \<le> sqrt (358 / 365)"
    by (rule real_le_rsqrt) (simp add: power2_eq_square)
  then have "1 / 20 * sqrt 1 \<le> 1 / 5 * sqrt (358 / 365)" by simp
  then have "1 / 20 * sqrt 1 / (2 * sqrt 2) \<le> 1 / 5 * sqrt (358 / 365) / (2 * sqrt 2)"
    by (intro divide_right_mono) simp_all
  then have "erf (1 / 20 * sqrt 1 / (2 * sqrt 2)) \<le> erf (1 / 5 * sqrt (358 / 365) / (2 * sqrt 2))"
    by (rule erf_mono)
  then have "call_formula 100 100 1 0 (1 / 20) \<le> call_formula 100 100 (358 / 365) 0 (1 / 5)"
    by (simp add: atm_call_formula)
  with thin_flat_above_one show ?thesis by simp
qed

lemma cheap_flat_pnl_positive:
  "calculate_scenario_pnl (ScenarioEngine (OptionPricer 100 100 1 0 (1 / 4) (1 / 5)) 1 10) 0 0 7
     = Inr ((call_formula 100 100 (358 / 365) 0 (1 / 5) - 1) * 100 * 10)
   \<and> 0 < (call_formula 100 100 (358 / 365) 0 (1 / 5) - 1) * 100 * 10"
proof -
  have t: "max (max 1 0.001 - 7 / 365) (0.001 :: real) = 358 / 365" by simp
  have "calculate_scenario_pnl (ScenarioEngine (OptionPricer 100 100 1 0 (1 / 4) (1 / 5)) 1 10) 0 0 7
     = Inr ((call_formula 100 100 (358 / 365) 0 (1 / 5) - 1) * 100 * 10)"
    using flat_pnl_ok [of 100 100 1 0 "1 / 4" "1 / 5" 1 10] by (simp add: t)
  then show ?thesis using cheap_flat_above_one by simp
qed


section \<open>The best and the worst scenario\<close>

lemma hd_filter_nth:
  assumes "\<exists>x \<in> set xs. P x"
  shows "\<exists>i<length xs. hd (filter P xs) = xs ! i \<and> P (xs ! i) \<and> (\<forall>j<i. \<not> P (xs ! j))"
  using assms
proof (induction xs)
  case Nil
  then show ?case by simp
next
  case (Cons x xs)
  show ?case
  proof (cases "P x")
    case True
    then show ?thesis by (intro exI [of _ 0]) simp
  next
    case False
    with Cons.prems have "\<exists>x \<in> set xs. P x" by simp
    from Cons.IH [OF this] obtain i where i: "i < length xs" "hd (filter P xs) = xs ! i"
      "P (xs ! i)" "\<forall>j<i. \<not> P (xs ! j)" by blast
    have "\<forall>j<Suc i. \<not> P ((x # xs) ! j)"
      using False i(4) by (auto simp add: less_Suc_eq_0_disj)
    with i False show ?thesis by (intro exI [of _ "Suc i"]) simp
  qed
qed

lemma last_filter_nth:
  assumes "\<exists>x \<in> set xs. P x"
  shows "\<exists>i<length xs. last (filter P xs) = xs ! i \<and> P (xs ! i)
     \<and> (\<forall>j<length xs. i < j \<longrightarrow> \<not> P (xs ! j))"
  using assms
proof (induction xs rule: rev_induct)
  case Nil
  then show ?case by simp
next
  case (snoc x xs)
  show ?case
  proof (cases "P x")
    case True
    then show ?thesis by (intro exI [of _ "length xs"]) simp
  next
    case False
    with snoc.prems have "\<exists>x \<in> set xs. P x" by simp
    from snoc.IH [OF this] obtain i where i: "i < length xs" "last (filter P xs) = xs ! i"
      "P (xs ! i)" "\<forall>j<length xs. i < j \<longrightarrow> \<not> P (xs ! j)" by blast
    have "\<forall>j<length (xs @ [x]). i < j \<longrightarrow> \<not> P ((xs @ [x]) ! j)"
      using False i(4) by (auto simp add: nth_append less_Suc_eq)
    with i False show ?thesis by (intro exI [of _ i]) (simp add: nth_append)
  qed
qed

lemma hd_sort_key:
  fixes f :: "'a \<Rightarrow> real"
  assumes "xs \<noteq> []"
  shows "\<exists>i<length xs. hd (sort_key f xs) = xs ! i
     \<and> (\<forall>j<length xs. f (xs ! i) \<le> f (xs ! j))
     \<and> (\<forall>j<i. f (xs ! i) < f (xs ! j))"
proof -
  let ?ys = "sort_key f xs"
  have "length ?ys = length xs" by simp
  then have ne: "?ys \<noteq> []" using assms by (simp only: length_0_conv [symmetric]) simp
  then obtain h t where ys: "?ys = h # t" by (cases ?ys) auto
  have srt: "sorted (map f ?ys)" by (rule sorted_sort_key)
  have least: "f h \<le> f y" if "y \<in> set xs" for y
  proof -
    have "y \<in> set ?ys" using that by simp
    then show ?thesis using srt unfolding ys by auto
  qed
  have "h \<in> set ?ys" by (simp add: ys)
  then have "h \<in> set xs" by simp
  then have ex: "\<exists>x \<in> set xs. f x = f h" by blast
  have "hd (filter (\<lambda>y. f y = f h) xs) = hd (filter (\<lambda>y. f y = f h) ?ys)"
    by (simp only: sort_key_stable)
  also have "\<dots> = h" by (simp add: ys)
  finally have hdf: "hd (filter (\<lambda>y. f y = f h) xs) = h" .
  from hd_filter_nth [OF ex] obtain i where i: "i < length xs"
    "hd (filter (\<lambda>y. f y = f h) xs) = xs ! i" "f (xs ! i) = f h"
    "\<forall>j<i. f (xs ! j) \<noteq> f h" by blast
  have a: "\<forall>j<length xs. f (xs ! i) \<le> f (xs ! j)"
    using least i(3) by simp
  have b: "\<forall>j<i. f (xs ! i) < f (xs ! j)"
  proof (intro allI impI)
    fix j assume j: "j < i"
    then have "f (xs ! j) \<noteq> f h" using i(4) by simp
    moreover have "f h \<le> f (xs ! j)" using j i(1) by (intro least) simp
    ultimately show "f (xs ! i) < f (xs ! j)" using i(3) by simp
  qed
  have "hd ?ys = xs ! i" using hdf i(2) ys by simp
  with i(1) a b show ?thesis by blast
qed

lemma last_sort_key:
  fixes f :: "'a \<Rightarrow> real"
  assumes "xs \<noteq> []"
  shows "\<exists>i<length xs. last (sort_key f xs) = xs ! i
     \<and> (\<forall>j<length xs. f (xs ! j) \<le> f (xs ! i))
     \<and> (\<forall>j<length xs. i < j \<longrightarrow> f (xs ! j) < f (xs ! i))"
proof -
  let ?ys = "sort_key f xs"
  have "length ?ys = length xs" by simp
  then have ne: "?ys \<noteq> []" using assms by (simp only: length_0_conv [symmetric]) simp
  define l where "l = last ?ys"
  have srt: "sorted (map f ?ys)" by (rule sorted_sort_key)
  have lin: "l \<in> set ?ys" unfolding l_def using ne by (rule last_in_set)
  have greatest: "f y \<le> f l" if "y \<in> set xs" for y
  proof -
    have "y \<in> set ?ys" using that by simp
    then have "\<exists>k<length ?ys. ?ys ! k = y" by (simp only: in_set_conv_nth)
    then obtain k where k: "k < length ?ys" "?ys ! k = y" by blast
    have "map f ?ys ! k \<le> map f ?ys ! (length ?ys - 1)"
      using srt k(1) by (intro sorted_nth_mono) simp_all
    then show ?thesis
      using k ne by (simp add: l_def last_conv_nth)
  qed
  have "l \<in> set xs" using lin by simp
  then have ex: "\<exists>x \<in> set xs. f x = f l" by blast
  have "last (filter (\<lambda>y. f y = f l) ?ys) = l"
  proof -
    have "filter (\<lambda>y. f y = f l) (butlast ?ys @ [l])
        = filter (\<lambda>y. f y = f l) (butlast ?ys) @ [l]"
      by simp
    moreover have "butlast ?ys @ [l] = ?ys" using ne by (simp add: l_def)
    ultimately have "filter (\<lambda>y. f y = f l) ?ys = filter (\<lambda>y. f y = f l) (butlast ?ys) @ [l]"
      by simp
    then show ?thesis by simp
  qed
  then have lf: "last (filter (\<lambda>y. f y = f l) xs) = l"
    by (simp only: sort_key_stable)
  from last_filter_nth [OF ex] obtain i where i: "i < length xs"
    "last (filter (\<lambda>y. f y = f l) xs) = xs ! i" "f (xs ! i) = f l"
    "\<forall>j<length xs. i < j \<longrightarrow> f (xs ! j) \<noteq> f l" by blast
  have a: "\<forall>j<length xs. f (xs ! j) \<le> f (xs ! i)"
    using greatest i(3) by simp
  have b: "\<forall>j<length xs. i < j \<longrightarrow> f (xs ! j) < f (xs ! i)"
  proof (intro allI impI)
    fix j assume j: "j < length xs" "i < j"
    then have "f (xs ! j) \<noteq> f l" using i(4) by simp
    moreover have "f (xs ! j) \<le> f l" using j by (intro greatest) simp
    ultimately show "f (xs ! j) < f (xs ! i)" using i(3) by simp
  qed
  have "last ?ys = xs ! i" using lf i(2) by (simp add: l_def)
  with i(1) a b show ?thesis by blast
qed


lemma pbind_Inr_iff: "pbind m f = Inr y \<longleftrightarrow> (\<exists>v. m = Inr v \<and> f v = Inr y)"
  by (cases m) (simp_all add: pbind_def)

lemma run_loop_results:
  assumes "run_loop e scs = Inr results"
  shows "length results = length scs
    \<and> (\<forall>k<length scs.
          calculate_scenario_pnl e (stock_chg (scs ! k)) (vol_chg (scs ! k)) (days (scs ! k))
            = Inr (pnl (results ! k))
        \<and> res_name (results ! k) = sc_name (scs ! k))"
  using assms
proof (induction scs arbitrary: results)
  case Nil
  then show ?case by simp
next
  case (Cons s ss)
  from Cons.prems obtain p q rest where
    p: "calculate_scenario_pnl e (stock_chg s) (vol_chg s) (days s) = Inr p"
    and rest: "run_loop e ss = Inr rest"
    and res: "results = \<lparr>res_name = sc_name s, stock_change = stock_chg s * 100,
             vol_change = vol_chg s * 100, pnl = p, pnl_pct = q * 100\<rparr> # rest"
    by (auto simp add: pbind_Inr_iff)
  from Cons.IH [OF rest] have len: "length rest = length ss"
    and ih: "\<forall>k<length ss.
          calculate_scenario_pnl e (stock_chg (ss ! k)) (vol_chg (ss ! k)) (days (ss ! k))
            = Inr (pnl (rest ! k))
        \<and> res_name (rest ! k) = sc_name (ss ! k)"
    by simp_all
  have "calculate_scenario_pnl e (stock_chg ((s # ss) ! k)) (vol_chg ((s # ss) ! k))
            (days ((s # ss) ! k)) = Inr (pnl (results ! k))
        \<and> res_name (results ! k) = sc_name ((s # ss) ! k)" if "k < length (s # ss)" for k
  proof (cases k)
    case 0
    then show ?thesis by (simp add: res p)
  next
    case (Suc m)
    then have "m < length ss" using that by simp
    then show ?thesis using ih Suc by (simp add: res)
  qed
  then show ?case using len by (simp add: res)
qed

lemma run_loop_total:
  assumes "\<forall>s \<in> set scs. \<exists>p. calculate_scenario_pnl e (stock_chg s) (vol_chg s) (days s) = Inr p"
    and "market_price e * 100 * real_of_int (num_contracts e) \<noteq> 0"
  shows "\<exists>results. run_loop e scs = Inr results"
  using assms(1)
proof (induction scs)
  case Nil
  then show ?case by simp
next
  case (Cons s ss)
  then obtain p rest where "calculate_scenario_pnl e (stock_chg s) (vol_chg s) (days s) = Inr p"
    "run_loop e ss = Inr rest" by auto
  then show ?case using assms(2) by (simp add: pbind_def py_div_def)
qed

lemma length_scenarios: "length scenarios = 7"
  by (simp add: scenarios_def)

lemma run_spec:
  assumes "run e = Inr res"
  shows "length (all_results res) = 7
    \<and> map res_name (all_results res) = map sc_name scenarios
    \<and> (\<forall>k<7. calculate_scenario_pnl e (stock_chg (scenarios ! k)) (vol_chg (scenarios ! k))
                 (days (scenarios ! k)) = Inr (pnl (all_results res ! k)))
    \<and> (\<exists>i<7. best res = all_results res ! i
          \<and> (\<forall>j<7. pnl (all_results res ! j) \<le> pnl (all_results res ! i))
          \<and> (\<forall>j<7. i < j \<longrightarrow> pnl (all_results res ! j) < pnl (all_results res ! i)))
    \<and> (\<exists>i<7. worst res = all_results res ! i
          \<and> (\<forall>j<7. pnl (all_results res ! i) \<le> pnl (all_results res ! j))
          \<and> (\<forall>j<i. pnl (all_results res ! i) < pnl (all_results res ! j)))"
proof -
  from assms obtain results where loop: "run_loop e scenarios = Inr results"
    and rest: "(let sorted_results = sort_key pnl results
       in if sorted_results = [] then Inl IndexError
          else Inr \<lparr>all_results = results, best = last sorted_results,
                    worst = hd sorted_results\<rparr>) = Inr res"
    unfolding run_def pbind_Inr_iff by blast
  from rest have res: "res = \<lparr>all_results = results, best = last (sort_key pnl results),
                    worst = hd (sort_key pnl results)\<rparr>"
    by (simp add: Let_def split: if_splits)
  from run_loop_results [OF loop] have len: "length results = 7"
    and each: "\<forall>k<7.
          calculate_scenario_pnl e (stock_chg (scenarios ! k)) (vol_chg (scenarios ! k))
            (days (scenarios ! k)) = Inr (pnl (results ! k))
        \<and> res_name (results ! k) = sc_name (scenarios ! k)"
    by (simp_all add: length_scenarios)
  have ne: "results \<noteq> []" using len by auto
  have names: "map res_name results = map sc_name scenarios"
    by (rule nth_equalityI) (simp_all add: len length_scenarios each)
  have b: "\<exists>i<7. last (sort_key pnl results) = results ! i
          \<and> (\<forall>j<7. pnl (results ! j) \<le> pnl (results ! i))
          \<and> (\<forall>j<7. i < j \<longrightarrow> pnl (results ! j) < pnl (results ! i))"
    using last_sort_key [OF ne, of pnl] by (simp only: len)
  have w: "\<exists>i<7. hd (sort_key pnl results) = results ! i
          \<and> (\<forall>j<7. pnl (results ! i) \<le> pnl (results ! j))
          \<and> (\<forall>j<i. pnl (results ! i) < pnl (results ! j))"
    using hd_sort_key [OF ne, of pnl] by (simp only: len)
  show ?thesis
    using len names each b w by (simp add: res)
qed


section \<open>Numeric bounds on the normal distribution\<close>

lemma pi_ge_3: "3 \<le> pi"
proof -
  have "sin (pi / 6) \<le> pi / 6" by (rule sin_x_le_x) simp
  then show ?thesis by (simp add: sin_30)
qed

lemma inv_sqrt_2pi_upper: "1 / sqrt (2 * pi) \<le> 41 / 100"
proof -
  have "(100 / 41 :: real) = sqrt ((100 / 41)\<^sup>2)" by simp
  also have "\<dots> \<le> sqrt (2 * pi)"
    using pi_ge_3 by (subst real_sqrt_le_iff) (simp add: power2_eq_square)
  finally have "(100 / 41 :: real) \<le> sqrt (2 * pi)" .
  then have "1 / sqrt (2 * pi) \<le> 1 / (100 / 41)"
    by (intro divide_left_mono) simp_all
  then show ?thesis by simp
qed

lemma inv_sqrt_2pi_lower: "35 / 100 \<le> 1 / sqrt (2 * pi)"
proof -
  have "sqrt (2 * pi) \<le> sqrt ((100 / 35)\<^sup>2)"
    using pi_less_4 by (subst real_sqrt_le_iff) (simp add: power2_eq_square)
  then have "sqrt (2 * pi) \<le> 100 / 35" by simp
  then have "1 / (100 / 35) \<le> 1 / sqrt (2 * pi)"
    by (intro divide_left_mono) simp_all
  then show ?thesis by simp
qed

lemma erf_upper_linear:
  assumes "0 \<le> x"
  shows "erf x \<le> 2 / sqrt pi * x"
proof -
  let ?h = "\<lambda>x. 2 / sqrt pi * x - erf x"
  have "?h 0 \<le> ?h x"
  proof (rule DERIV_nonneg_imp_nondecreasing [where f = ?h, OF assms])
    fix u :: real
    have l: "((\<lambda>x. 2 / sqrt pi * x) has_real_derivative 2 / sqrt pi * 1) (at u)"
      by (rule DERIV_cmult [OF DERIV_ident])
    have d: "(?h has_real_derivative 2 / sqrt pi * 1 - 2 / sqrt pi * exp (- u\<^sup>2)) (at u)"
      by (rule DERIV_diff [OF l DERIV_erf])
    have "exp (- u\<^sup>2) \<le> 1" by simp
    then have "2 / sqrt pi * exp (- u\<^sup>2) \<le> 2 / sqrt pi * 1"
      by (intro mult_left_mono) simp_all
    then have "0 \<le> 2 / sqrt pi * 1 - 2 / sqrt pi * exp (- u\<^sup>2)" by simp
    with d show "\<exists>y. (?h has_real_derivative y) (at u) \<and> 0 \<le> y" by blast
  qed
  then show ?thesis by (simp add: erf_zero)
qed

lemma sqrt_2pi_split: "sqrt (2 * pi) = sqrt 2 * sqrt pi"
  by (rule real_sqrt_mult)

lemma norm_cdf_half: "norm_cdf x = 1 / 2 + 1 / 2 * erf (x / sqrt 2)"
  by (simp add: norm_cdf_def)

lemma scaled_linear_aux:
  fixes a b x :: real
  assumes "a \<noteq> 0" "b \<noteq> 0"
  shows "1 / 2 * (2 / b * (x / a)) = 1 / (a * b) * x"
  using assms by simp

lemma scaled_cubic_aux:
  fixes a b x :: real
  assumes "a \<noteq> 0" "b \<noteq> 0"
  shows "1 / 2 * (2 / b * (x / a - x ^ 3 / (2 * a) / 3)) = 1 / (a * b) * (x - x ^ 3 / 6)"
  using assms by (simp add: field_simps)

lemma norm_cdf_upper:
  assumes "0 \<le> x"
  shows "norm_cdf x \<le> 1 / 2 + 41 / 100 * x"
proof -
  have "erf (x / sqrt 2) \<le> 2 / sqrt pi * (x / sqrt 2)"
    using assms by (intro erf_upper_linear) simp
  then have "1 / 2 * erf (x / sqrt 2) \<le> 1 / 2 * (2 / sqrt pi * (x / sqrt 2))"
    by (intro mult_left_mono) simp_all
  also have "\<dots> = 1 / (sqrt 2 * sqrt pi) * x"
    by (rule scaled_linear_aux) simp_all
  also have "\<dots> = 1 / sqrt (2 * pi) * x"
    by (simp only: sqrt_2pi_split)
  also have "\<dots> \<le> 41 / 100 * x"
    using assms by (intro mult_right_mono inv_sqrt_2pi_upper)
  finally show ?thesis by (simp only: norm_cdf_half add_left_mono)
qed

lemma norm_cdf_lower:
  assumes "0 \<le> x" "x\<^sup>2 \<le> 6"
  shows "1 / 2 + 35 / 100 * (x - x ^ 3 / 6) \<le> norm_cdf x"
proof -
  have nn: "0 \<le> x - x ^ 3 / 6"
  proof -
    have "x - x ^ 3 / 6 = x * (6 - x\<^sup>2) / 6"
      by (simp add: power3_eq_cube power2_eq_square algebra_simps)
    also have "0 \<le> x * (6 - x\<^sup>2) / 6" using assms by simp
    finally show ?thesis .
  qed
  have cube: "(x / sqrt 2) ^ 3 = x ^ 3 / (2 * sqrt 2)"
    by (simp add: power3_eq_cube)
  have "35 / 100 * (x - x ^ 3 / 6) \<le> 1 / sqrt (2 * pi) * (x - x ^ 3 / 6)"
    using nn by (intro mult_right_mono inv_sqrt_2pi_lower)
  also have "\<dots> = 1 / (sqrt 2 * sqrt pi) * (x - x ^ 3 / 6)"
    by (simp only: sqrt_2pi_split)
  also have "\<dots> = 1 / 2 * (2 / sqrt pi * (x / sqrt 2 - x ^ 3 / (2 * sqrt 2) / 3))"
    by (rule scaled_cubic_aux [symmetric]) simp_all
  also have "\<dots> = 1 / 2 * (2 / sqrt pi * (x / sqrt 2 - (x / sqrt 2) ^ 3 / 3))"
    by (simp only: cube)
  also have "\<dots> \<le> 1 / 2 * erf (x / sqrt 2)"
    using assms by (intro mult_left_mono erf_lower_cubic) simp_all
  finally show ?thesis by (simp only: norm_cdf_half add_left_mono)
qed

lemma norm_cdf_mono: "a \<le> b \<Longrightarrow> norm_cdf a \<le> norm_cdf b"
  using erf_mono [of "a / sqrt 2" "b / sqrt 2"] by (simp add: norm_cdf_def divide_right_mono)

lemma ln_lower: "0 < x \<Longrightarrow> 1 - 1 / x \<le> ln x" for x :: real
  using ln_le_minus_one [of "1 / x"] by (simp add: ln_div)


lemma sqrt_25: "sqrt 25 = 5"
proof -
  have "sqrt ((5 :: real)\<^sup>2) = 5" by simp
  moreover have "(5 :: real)\<^sup>2 = 25" by simp
  ultimately show ?thesis by (simp only:)
qed

lemma ln_20_19: "1 / 20 \<le> ln (20 / 19 :: real)" "ln (20 / 19 :: real) \<le> 1 / 19"
  using ln_lower [of "20 / 19"] ln_le_minus_one [of "20 / 19"] by simp_all

lemma ln_17_19: "- (2 / 17) \<le> ln (17 / 19 :: real)" "ln (17 / 19 :: real) \<le> - (2 / 19)"
  using ln_lower [of "17 / 19"] ln_le_minus_one [of "17 / 19"] by simp_all

lemma short_flat_d1: "bs_d1 100 95 25 0 (1 / 20) = 4 * ln (20 / 19) + 1 / 8"
  by (simp add: bs_d1_def sqrt_25 power2_eq_square field_simps)

lemma short_crash_d1: "bs_d1 85 95 25 0 (1 / 4) = 4 / 5 * ln (17 / 19) + 5 / 8"
  by (simp add: bs_d1_def sqrt_25 power2_eq_square field_simps)

lemma short_moddown_d1: "bs_d1 95 95 25 0 (1 / 10) = 1 / 4"
  by (simp add: bs_d1_def sqrt_25 power2_eq_square)

lemma short_flat_upper: "call_formula 100 95 25 0 (1 / 20) \<le> 14"
proof -
  let ?a = "bs_d1 100 95 25 0 (1 / 20)"
  have a_hi: "?a \<le> 336 / 1000" and a_lo: "75 / 1000 \<le> ?a - 1 / 4"
    using ln_20_19 by (simp_all add: short_flat_d1)
  have "norm_cdf ?a \<le> norm_cdf (336 / 1000)" using a_hi by (rule norm_cdf_mono)
  also have "\<dots> \<le> 1 / 2 + 41 / 100 * (336 / 1000)" by (rule norm_cdf_upper) simp
  finally have up: "norm_cdf ?a \<le> 1 / 2 + 41 / 100 * (336 / 1000)" .
  have "1 / 2 + 35 / 100 * (75 / 1000 - (75 / 1000) ^ 3 / 6) \<le> norm_cdf (75 / 1000)"
    by (rule norm_cdf_lower) (simp_all add: power2_eq_square)
  also have "\<dots> \<le> norm_cdf (?a - 1 / 4)" using a_lo by (rule norm_cdf_mono)
  finally have lo: "1 / 2 + 35 / 100 * (75 / 1000 - (75 / 1000) ^ 3 / 6) \<le> norm_cdf (?a - 1 / 4)" .
  have "call_formula 100 95 25 0 (1 / 20) = 100 * norm_cdf ?a - 95 * norm_cdf (?a - 1 / 4)"
    by (simp add: call_formula_def bs_d2_def sqrt_25)
  also have "\<dots> \<le> 100 * (1 / 2 + 41 / 100 * (336 / 1000))
      - 95 * (1 / 2 + 35 / 100 * (75 / 1000 - (75 / 1000) ^ 3 / 6))"
    using up lo by (intro diff_mono mult_left_mono) simp_all
  also have "\<dots> \<le> 14" by (simp add: power3_eq_cube)
  finally show ?thesis .
qed

lemma short_moddown_lower: "16 \<le> call_formula 95 95 25 0 (1 / 10)"
proof -
  have lo: "1 / 2 + 35 / 100 * (1 / 4 - (1 / 4) ^ 3 / 6) \<le> norm_cdf (1 / 4)"
    by (rule norm_cdf_lower) (simp_all add: power2_eq_square)
  have "call_formula 95 95 25 0 (1 / 10) = 95 * norm_cdf (1 / 4) - 95 * norm_cdf (- (1 / 4))"
    by (simp add: call_formula_def bs_d2_def short_moddown_d1 sqrt_25)
  also have "\<dots> = 95 * (2 * norm_cdf (1 / 4) - 1)"
    by (simp add: norm_cdf_minus)
  finally have eq: "call_formula 95 95 25 0 (1 / 10) = 95 * (2 * norm_cdf (1 / 4) - 1)" .
  have "(16 :: real) \<le> 95 * (2 * (1 / 2 + 35 / 100 * (1 / 4 - (1 / 4) ^ 3 / 6)) - 1)"
    by (simp add: power3_eq_cube)
  also have "\<dots> \<le> 95 * (2 * norm_cdf (1 / 4) - 1)"
    using lo by (intro mult_left_mono diff_mono) simp_all
  finally show ?thesis by (simp only: eq)
qed

lemma short_crash_lower: "16 \<le> call_formula 85 95 25 0 (1 / 4)"
proof -
  let ?a = "bs_d1 85 95 25 0 (1 / 4)"
  have a_lo: "53 / 100 \<le> ?a" and b_hi: "709 / 1000 \<le> - (?a - 5 / 4)"
    using ln_17_19 by (simp_all add: short_crash_d1)
  have "1 / 2 + 35 / 100 * (53 / 100 - (53 / 100) ^ 3 / 6) \<le> norm_cdf (53 / 100)"
    by (rule norm_cdf_lower) (simp_all add: power2_eq_square)
  also have "\<dots> \<le> norm_cdf ?a" using a_lo by (rule norm_cdf_mono)
  finally have lo: "1 / 2 + 35 / 100 * (53 / 100 - (53 / 100) ^ 3 / 6) \<le> norm_cdf ?a" .
  have "1 / 2 + 35 / 100 * (709 / 1000 - (709 / 1000) ^ 3 / 6) \<le> norm_cdf (709 / 1000)"
    by (rule norm_cdf_lower) (simp_all add: power2_eq_square)
  also have "\<dots> \<le> norm_cdf (- (?a - 5 / 4))" using b_hi by (rule norm_cdf_mono)
  finally have "1 / 2 + 35 / 100 * (709 / 1000 - (709 / 1000) ^ 3 / 6) \<le> 1 - norm_cdf (?a - 5 / 4)"
    by (simp only: norm_cdf_minus)
  then have up: "norm_cdf (?a - 5 / 4) \<le> 1 / 2 - 35 / 100 * (709 / 1000 - (709 / 1000) ^ 3 / 6)"
    by simp
  have "(16 :: real) \<le> 85 * (1 / 2 + 35 / 100 * (53 / 100 - (53 / 100) ^ 3 / 6))
      - 95 * (1 / 2 - 35 / 100 * (709 / 1000 - (709 / 1000) ^ 3 / 6))"
    by (simp add: power3_eq_cube)
  also have "\<dots> \<le> 85 * norm_cdf ?a - 95 * norm_cdf (?a - 5 / 4)"
    using lo up by (intro diff_mono mult_left_mono) simp_all
  also have "\<dots> = call_formula 85 95 25 0 (1 / 4)"
    by (simp add: call_formula_def bs_d2_def sqrt_25)
  finally show ?thesis .
qed


section \<open>A short position whose best scenarios tie\<close>

lemma scenario_pnl_value:
  assumes "0 < eS e * (1 + a)" "0 < eK e"
  shows "calculate_scenario_pnl e a b d
     = Inr ((call_formula (eS e * (1 + a)) (eK e) (max (eT e - real_of_int d / 365) 0.001) (er e)
               (max (esigma e + b) 0.05) - market_price e) * 100 * real_of_int (num_contracts e))"
proof -
  have "bs_call (eS e * (1 + a)) (eK e) (max (eT e - real_of_int d / 365) 0.001) (er e)
            (max (esigma e + b) 0.05)
        = Inr (call_formula (eS e * (1 + a)) (eK e) (max (eT e - real_of_int d / 365) 0.001) (er e)
            (max (esigma e + b) 0.05))"
    by (rule bs_call_ok [OF assms]) (simp_all add: max_def)
  then show ?thesis
    by (simp add: calculate_scenario_pnl_def Let_def pbind_def)
qed

lemma run_total:
  assumes "0 < eS e" "0 < eK e" "market_price e * 100 * real_of_int (num_contracts e) \<noteq> 0"
  shows "\<exists>res. run e = Inr res"
proof -
  have "\<forall>s \<in> set scenarios. \<exists>p. calculate_scenario_pnl e (stock_chg s) (vol_chg s) (days s) = Inr p"
  proof
    fix s assume "s \<in> set scenarios"
    then have "0 < 1 + stock_chg s" using scenario_cases(1) by fastforce
    then have "0 < eS e * (1 + stock_chg s)" using assms(1) by simp
    from scenario_pnl_value [OF this assms(2)]
    show "\<exists>p. calculate_scenario_pnl e (stock_chg s) (vol_chg s) (days s) = Inr p" by blast
  qed
  from run_loop_total [OF this assms(3)] obtain results
    where loop: "run_loop e scenarios = Inr results" by blast
  from run_loop_results [OF loop] have "length results = 7" by (simp add: length_scenarios)
  then have "sort_key pnl results \<noteq> []" by (metis length_sort length_0_conv zero_neq_numeral)
  then show ?thesis by (simp add: run_def loop pbind_def Let_def)
qed

lemma short_engine_fields:
  "eS short_engine = 100" "eK short_engine = 95" "eT short_engine = 9132 / 365"
  "er short_engine = 0" "esigma short_engine = 1 / 20" "market_price short_engine = 1"
  "num_contracts short_engine = - 1"
  by (simp_all add: short_engine_def short_pricer_def ScenarioEngine_def OptionPricer_def)

lemma short_pnl:
  assumes "- 1 < a"
  shows "calculate_scenario_pnl short_engine a b 7
     = Inr ((call_formula (100 * (1 + a)) 95 25 0 (max (1 / 20 + b) (1 / 20)) - 1) * 100 * (- 1))"
  using scenario_pnl_value [of short_engine a b 7] assms by (simp add: short_engine_fields)

lemma short_pnls:
  "calculate_scenario_pnl short_engine (stock_chg (scenarios ! 0)) (vol_chg (scenarios ! 0))
      (days (scenarios ! 0)) = Inr ((call_formula 115 95 25 0 (1 / 20) - 1) * 100 * (- 1))"
  "calculate_scenario_pnl short_engine (stock_chg (scenarios ! 1)) (vol_chg (scenarios ! 1))
      (days (scenarios ! 1)) = Inr ((call_formula 105 95 25 0 (1 / 20) - 1) * 100 * (- 1))"
  "calculate_scenario_pnl short_engine (stock_chg (scenarios ! 2)) (vol_chg (scenarios ! 2))
      (days (scenarios ! 2)) = Inr ((call_formula 100 95 25 0 (1 / 20) - 1) * 100 * (- 1))"
  "calculate_scenario_pnl short_engine (stock_chg (scenarios ! 3)) (vol_chg (scenarios ! 3))
      (days (scenarios ! 3)) = Inr ((call_formula 95 95 25 0 (1 / 10) - 1) * 100 * (- 1))"
  "calculate_scenario_pnl short_engine (stock_chg (scenarios ! 4)) (vol_chg (scenarios ! 4))
      (days (scenarios ! 4)) = Inr ((call_formula 85 95 25 0 (1 / 4) - 1) * 100 * (- 1))"
  "calculate_scenario_pnl short_engine (stock_chg (scenarios ! 5)) (vol_chg (scenarios ! 5))
      (days (scenarios ! 5)) = Inr ((call_formula 100 95 25 0 (3 / 20) - 1) * 100 * (- 1))"
  "calculate_scenario_pnl short_engine (stock_chg (scenarios ! 6)) (vol_chg (scenarios ! 6))
      (days (scenarios ! 6)) = Inr ((call_formula 100 95 25 0 (1 / 20) - 1) * 100 * (- 1))"
  by (simp_all add: scenarios_def short_pnl)

lemma short_flat_least:
  "call_formula 100 95 25 0 (1 / 20) \<le> call_formula 115 95 25 0 (1 / 20)"
  "call_formula 100 95 25 0 (1 / 20) \<le> call_formula 105 95 25 0 (1 / 20)"
  "call_formula 100 95 25 0 (1 / 20) \<le> call_formula 95 95 25 0 (1 / 10)"
  "call_formula 100 95 25 0 (1 / 20) \<le> call_formula 85 95 25 0 (1 / 4)"
  "call_formula 100 95 25 0 (1 / 20) \<le> call_formula 100 95 25 0 (3 / 20)"
proof -
  show "call_formula 100 95 25 0 (1 / 20) \<le> call_formula 115 95 25 0 (1 / 20)"
    by (rule call_formula_mono_spot) simp_all
  show "call_formula 100 95 25 0 (1 / 20) \<le> call_formula 105 95 25 0 (1 / 20)"
    by (rule call_formula_mono_spot) simp_all
  show "call_formula 100 95 25 0 (1 / 20) \<le> call_formula 95 95 25 0 (1 / 10)"
    using short_flat_upper short_moddown_lower by simp
  show "call_formula 100 95 25 0 (1 / 20) \<le> call_formula 85 95 25 0 (1 / 4)"
    using short_flat_upper short_crash_lower by simp
  show "call_formula 100 95 25 0 (1 / 20) \<le> call_formula 100 95 25 0 (3 / 20)"
    by (rule call_formula_mono_sigma) simp_all
qed

lemma less_7_cases: "k < 7 \<Longrightarrow> k = 0 \<or> k = 1 \<or> k = 2 \<or> k = 3 \<or> k = 4 \<or> k = 5 \<or> k = (6 :: nat)"
  by arith

text \<open>An upper bound on a one-year call at the money.\<close>

lemma year_call_below_ten: "call_formula 100 100 1 0 (1 / 5) \<le> 10"
proof -
  have a: "bs_d1 100 100 1 0 (1 / 5) = 1 / 10" by (simp add: bs_d1_def power2_eq_square)
  have b: "bs_d2 100 100 1 0 (1 / 5) = - (1 / 10)" by (simp add: bs_d2_def a)
  have "norm_cdf (1 / 10) \<le> 1 / 2 + 41 / 100 * (1 / 10)" by (rule norm_cdf_upper) simp
  then show ?thesis by (simp add: call_formula_def a b norm_cdf_minus)
qed


section \<open>Claims\<close>


text \<open>
  C1. A pricer built from \<open>S > 0\<close>, \<open>K > 0\<close> and two positive volatilities returns from
  \<open>calculate\<close> without raising; \<open>price_hv\<close> and \<open>price_iv\<close> are the call formula at
  \<open>sigma_hv\<close> and \<open>sigma_iv\<close> (at the floored time to expiry); \<open>mispricing_pct\<close> is
  \<open>(price_iv - price_hv) / price_hv * 100\<close> when \<open>price_hv > 0\<close> and \<open>0\<close> otherwise; and
  the label is EXPENSIVE exactly when that percentage exceeds 20, CHEAP exactly when it is
  below -20, FAIR otherwise.
\<close>

theorem calculate_prices_and_valuation:
  assumes "0 < S" "0 < K" "0 < shv" "0 < siv"
  shows "\<exists>res. calculate (OptionPricer S K T r shv siv) = Inr res
    \<and> price_hv res = call_formula S K (max T 0.001) r shv
    \<and> price_iv res = call_formula S K (max T 0.001) r siv
    \<and> mispricing_pct res =
        (if price_hv res > 0 then (price_iv res - price_hv res) / price_hv res * 100 else 0)
    \<and> (valuation res = ''EXPENSIVE'' \<longleftrightarrow> mispricing_pct res > 20)
    \<and> (valuation res = ''CHEAP'' \<longleftrightarrow> mispricing_pct res < - 20)
    \<and> (valuation res = ''FAIR'' \<longleftrightarrow> \<not> mispricing_pct res > 20 \<and> \<not> mispricing_pct res < - 20)"
proof -
  let ?p = "OptionPricer S K T r shv siv"
  have T: "0 < pT ?p" by (simp add: OptionPricer_def max_def)
  have hv: "bs_call_price ?p (sigma_hv ?p) = Inr (call_formula S K (max T 0.001) r shv)"
    using bs_call_price_ok [of ?p shv] assms T by (simp add: OptionPricer_def)
  have iv: "bs_call_price ?p (sigma_iv ?p) = Inr (call_formula S K (max T 0.001) r siv)"
    using bs_call_price_ok [of ?p siv] assms T by (simp add: OptionPricer_def)
  show ?thesis
    unfolding calculate_def hv iv pbind_def get_valuation_cases by simp
qed

text \<open>
  An out-of-the-money call on a spot of 100, five weeks from expiry.
\<close>

theorem calculate_prices_and_valuation_witness:
  "(0::real) < 100 \<and> (0::real) < 110 \<and> (0::real) < 1/4 \<and> (0::real) < 3/10 \<and>
   (\<exists>res. calculate (OptionPricer 100 110 (35/365) (45/1000) (1/4) (3/10)) = Inr res
    \<and> price_hv res = call_formula 100 110 (max (35/365) 0.001) (45/1000) (1/4)
    \<and> price_iv res = call_formula 100 110 (max (35/365) 0.001) (45/1000) (3/10)
    \<and> mispricing_pct res =
        (if price_hv res > 0 then (price_iv res - price_hv res) / price_hv res * 100 else 0)
    \<and> (valuation res = ''EXPENSIVE'' \<longleftrightarrow> mispricing_pct res > 20)
    \<and> (valuation res = ''CHEAP'' \<longleftrightarrow> mispricing_pct res < - 20)
    \<and> (valuation res = ''FAIR'' \<longleftrightarrow> \<not> mispricing_pct res > 20 \<and> \<not> mispricing_pct res < - 20))"
  using calculate_prices_and_valuation [of 100 110 "1/4" "3/10" "35/365" "45/1000"] by simp

text \<open>
  C2 (amended). For \<open>S > 0\<close>, \<open>K > 0\<close> and \<open>sigma > 0\<close>, the call price minus the
  put price of one pricer is \<open>S - K * exp (- r * max T 0.001)\<close>: the pricer works with
  the floored time to expiry.  It is \<open>S - K * exp (- r * T)\<close> whenever \<open>T\<close> is at
  least 0.001.
\<close>

theorem put_call_parity:
  assumes "0 < S" "0 < K" "0 < sigma"
  shows "\<exists>c q. bs_call_price (OptionPricer S K T r shv siv) sigma = Inr c
    \<and> bs_put_price (OptionPricer S K T r shv siv) sigma = Inr q
    \<and> c - q = S - K * exp (- r * max T 0.001)
    \<and> (0.001 \<le> T \<longrightarrow> c - q = S - K * exp (- r * T))"
proof -
  have "call_formula S K (max T 0.001) r sigma - put_formula S K (max T 0.001) r sigma
      = S - K * exp (- r * max T 0.001)"
    by (rule parity_formula)
  moreover have "max T 0.001 = T" if "0.001 \<le> T"
    using that by (simp add: max_def)
  ultimately show ?thesis
    using pricer_call_ok [OF assms] pricer_put_ok [OF assms] by auto
qed

text \<open>
  The same call and its put, five weeks from expiry.
\<close>

theorem put_call_parity_witness:
  "(0::real) < 100 \<and> (0::real) < 110 \<and> (0::real) < 3/10 \<and> (0.001::real) \<le> 35/365 \<and>
   (\<exists>c q. bs_call_price (OptionPricer 100 110 (35/365) (45/1000) (1/4) (3/10)) (3/10) = Inr c
    \<and> bs_put_price (OptionPricer 100 110 (35/365) (45/1000) (1/4) (3/10)) (3/10) = Inr q
    \<and> c - q = 100 - 110 * exp (- (45/1000) * (35/365)))"
  using put_call_parity [of 100 110 "3/10" "35/365" "45/1000" "1/4" "3/10"] by simp

text \<open>
  Half a thousandth of a year to expiry, at a rate of five percent: the pricer works
  with \<open>T = 0.001\<close>, and call minus put misses \<open>S - K * exp (- r * T)\<close> by more than
  \<open>1e-6\<close>.
\<close>

theorem put_call_parity_counterexample:
  "bs_call_price (OptionPricer 100 100 (1/2000) (1/20) (3/10) (3/10)) (3/10)
      = Inr (call_formula 100 100 (1/1000) (1/20) (3/10))
   \<and> bs_put_price (OptionPricer 100 100 (1/2000) (1/20) (3/10) (3/10)) (3/10)
      = Inr (put_formula 100 100 (1/1000) (1/20) (3/10))
   \<and> \<bar>(call_formula 100 100 (1/1000) (1/20) (3/10) - put_formula 100 100 (1/1000) (1/20) (3/10))
        - (100 - 100 * exp (- (1/20) * (1/2000)))\<bar> > 1 / 10 ^ 6"
proof -
  have c: "bs_call_price (OptionPricer 100 100 (1/2000) (1/20) (3/10) (3/10)) (3/10)
      = Inr (call_formula 100 100 (1/1000) (1/20) (3/10))"
    using pricer_call_ok [of 100 100 "3/10" "1/2000" "1/20" "3/10" "3/10"] by simp
  have q: "bs_put_price (OptionPricer 100 100 (1/2000) (1/20) (3/10) (3/10)) (3/10)
      = Inr (put_formula 100 100 (1/1000) (1/20) (3/10))"
    using pricer_put_ok [of 100 100 "3/10" "1/2000" "1/20" "3/10" "3/10"] by simp
  have par: "call_formula 100 100 (1/1000) (1/20) (3/10) - put_formula 100 100 (1/1000) (1/20) (3/10)
      = 100 - 100 * exp (- (1/20) * (1/1000))"
    by (rule parity_formula)
  have lo: "1 - 1 / 40000 \<le> exp (- (1/40000 :: real))"
    using exp_ge_add_one_self [of "- (1/40000 :: real)"] by simp
  have "1 + 1 / 20000 \<le> exp (1 / 20000 :: real)"
    by (rule exp_ge_add_one_self)
  then have "1 / exp (1 / 20000 :: real) \<le> 1 / (1 + 1 / 20000)"
    by (intro divide_left_mono) simp_all
  then have hi: "exp (- (1 / 20000 :: real)) \<le> 20000 / 20001"
    by (simp add: exp_minus inverse_eq_divide)
  have "\<bar>(100 - 100 * exp (- (1/20) * (1/1000))) - (100 - 100 * exp (- (1/20) * (1/2000)))\<bar>
      > (1 / 10 ^ 6 :: real)"
    using lo hi by simp
  with c q par show ?thesis by simp
qed

text \<open>
  C3 (amended). When \<open>run\<close> returns, it reports seven results in the order of the
  scenario list; the best scenario attains the maximum pnl and the worst the minimum.
  Among scenarios that tie for the minimum the first in list order is reported as worst;
  among scenarios that tie for the maximum the last in list order is reported as best.
\<close>

theorem run_best_and_worst:
  assumes "run e = Inr res"
  shows "length (all_results res) = 7
    \<and> map res_name (all_results res) = map sc_name scenarios
    \<and> (\<forall>k<7. calculate_scenario_pnl e (stock_chg (scenarios ! k)) (vol_chg (scenarios ! k))
                 (days (scenarios ! k)) = Inr (pnl (all_results res ! k)))
    \<and> (\<exists>i<7. best res = all_results res ! i
          \<and> (\<forall>j<7. pnl (all_results res ! j) \<le> pnl (all_results res ! i))
          \<and> (\<forall>j<7. i < j \<longrightarrow> pnl (all_results res ! j) < pnl (all_results res ! i)))
    \<and> (\<exists>i<7. worst res = all_results res ! i
          \<and> (\<forall>j<7. pnl (all_results res ! i) \<le> pnl (all_results res ! j))
          \<and> (\<forall>j<i. pnl (all_results res ! i) < pnl (all_results res ! j)))"
  using assms by (rule run_spec)

text \<open>
  The engine of the sample position returns, and reports two of its seven results.
\<close>

theorem run_best_and_worst_witness:
  "\<exists>res. run engine0 = Inr res
     \<and> length (all_results res) = 7
     \<and> map res_name (all_results res) = map sc_name scenarios
     \<and> (\<exists>i. i < 7 \<and> best res = all_results res ! i)
     \<and> (\<exists>i. i < 7 \<and> worst res = all_results res ! i)"
proof -
  obtain res where run: "run engine0 = Inr res"
    using run_total [of engine0] by (auto simp add: engine0_def)
  from run_best_and_worst [OF run] show ?thesis
    using run by blast
qed

text \<open>
  A short position of one contract at a volatility of five percent: Flat and Vol Crush
  are repriced at the same inputs and share the greatest pnl; Vol Crush, the later one, is
  reported as best.
\<close>

theorem run_best_and_worst_counterexample:
  "\<not> isl (run short_engine)
   \<and> res_name (best (projr (run short_engine))) = ''Vol Crush''
   \<and> res_name (all_results (projr (run short_engine)) ! 2) = ''Flat''
   \<and> pnl (all_results (projr (run short_engine)) ! 2) = pnl (best (projr (run short_engine)))"
proof -
  obtain res where run: "run short_engine = Inr res"
    using run_total [of short_engine] by (auto simp add: short_engine_fields)
  let ?rs = "all_results res"
  from run_spec [OF run] obtain i where len: "length ?rs = 7"
    and names: "map res_name ?rs = map sc_name scenarios"
    and each: "\<forall>k<7. calculate_scenario_pnl short_engine (stock_chg (scenarios ! k))
                 (vol_chg (scenarios ! k)) (days (scenarios ! k)) = Inr (pnl (?rs ! k))"
    and i: "i < 7" "best res = ?rs ! i"
    and later: "\<forall>j<7. i < j \<longrightarrow> pnl (?rs ! j) < pnl (?rs ! i)"
    by blast
  have p: "pnl (?rs ! 0) = (call_formula 115 95 25 0 (1 / 20) - 1) * 100 * (- 1)"
    "pnl (?rs ! 1) = (call_formula 105 95 25 0 (1 / 20) - 1) * 100 * (- 1)"
    "pnl (?rs ! 2) = (call_formula 100 95 25 0 (1 / 20) - 1) * 100 * (- 1)"
    "pnl (?rs ! 3) = (call_formula 95 95 25 0 (1 / 10) - 1) * 100 * (- 1)"
    "pnl (?rs ! 4) = (call_formula 85 95 25 0 (1 / 4) - 1) * 100 * (- 1)"
    "pnl (?rs ! 5) = (call_formula 100 95 25 0 (3 / 20) - 1) * 100 * (- 1)"
    "pnl (?rs ! 6) = (call_formula 100 95 25 0 (1 / 20) - 1) * 100 * (- 1)"
    using each short_pnls by simp_all
  have tops: "pnl (?rs ! 0) \<le> pnl (?rs ! 6)" "pnl (?rs ! 1) \<le> pnl (?rs ! 6)"
    "pnl (?rs ! 2) \<le> pnl (?rs ! 6)" "pnl (?rs ! 3) \<le> pnl (?rs ! 6)"
    "pnl (?rs ! 4) \<le> pnl (?rs ! 6)" "pnl (?rs ! 5) \<le> pnl (?rs ! 6)"
    "pnl (?rs ! 6) \<le> pnl (?rs ! 6)"
    using short_flat_least unfolding p by simp_all
  have top: "pnl (?rs ! k) \<le> pnl (?rs ! 6)" if "k < 7" for k
    using less_7_cases [OF that] tops by blast
  have "i = 6"
  proof (rule ccontr)
    assume "i \<noteq> 6"
    with i(1) have "i < 6" by simp
    with later have "pnl (?rs ! 6) < pnl (?rs ! i)" by simp
    with top [OF i(1)] show False by simp
  qed
  have n6: "res_name (?rs ! 6) = ''Vol Crush''"
  proof -
    have "map res_name ?rs ! 6 = map sc_name scenarios ! 6" by (simp only: names)
    then show ?thesis by (simp add: len length_scenarios) (simp add: scenarios_def)
  qed
  have n2: "res_name (?rs ! 2) = ''Flat''"
  proof -
    have "map res_name ?rs ! 2 = map sc_name scenarios ! 2" by (simp only: names)
    then show ?thesis by (simp add: len length_scenarios) (simp add: scenarios_def)
  qed
  have "pnl (?rs ! 2) = pnl (?rs ! 6)" unfolding p by (rule refl)
  then show ?thesis
    using n6 n2 i(2) \<open>i = 6\<close> by (simp add: run)
qed

text \<open>
  C4 (amended). For \<open>S > 0\<close>, \<open>K > 0\<close>, a volatility of at least 0.05 (so that the
  floor of the scenario engine leaves it alone), \<open>r \<ge> 0\<close> and a positive number of
  contracts: the call theta of the Greeks engine is negative, and the Flat scenario
  reprices the option at no more than the unshocked call price, at strictly less when
  \<open>T > 0.001\<close>.  Its reported pnl is \<open>(repriced - market_price) * 100 * num_contracts\<close>.
  When the market price is above the unshocked price, or equal to it or above with
  \<open>T > 0.001\<close>, the pnl is negative and its sign is the sign of theta.
\<close>

theorem flat_scenario_time_decay:
  assumes "0 < S" "0 < K" "0.05 \<le> siv" "0 \<le> r" "0 < n"
  shows "\<exists>g th unshocked flat pnl.
       sc_name (scenarios ! 2) = ''Flat''
     \<and> GreeksCalculator (OptionPricer S K T r shv siv) ''call'' = Inr g
     \<and> theta g = Inr th \<and> th < 0
     \<and> bs_call_price (OptionPricer S K T r shv siv) siv = Inr unshocked
     \<and> bs_call S K (max (max T 0.001 - 7 / 365) 0.001) r siv = Inr flat
     \<and> flat \<le> unshocked
     \<and> (0.001 < T \<longrightarrow> flat < unshocked)
     \<and> calculate_scenario_pnl (ScenarioEngine (OptionPricer S K T r shv siv) mp n)
          (stock_chg (scenarios ! 2)) (vol_chg (scenarios ! 2)) (days (scenarios ! 2))
         = Inr pnl
     \<and> pnl = (flat - mp) * 100 * real_of_int n
     \<and> (unshocked < mp \<or> 0.001 < T \<and> unshocked \<le> mp \<longrightarrow> pnl < 0 \<and> sgn pnl = sgn th)"
proof -
  let ?Tp = "max T (0.001 :: real)"
  let ?Tn = "max (?Tp - 7 / 365) (0.001 :: real)"
  let ?g = "\<lparr>gS = S, gK = K, gT = ?Tp, gr = r, gsigma = siv,
          gd1 = bs_d1 S K ?Tp r siv, gd2 = bs_d2 S K ?Tp r siv,
          option_type = lower ''call''\<rparr>"
  let ?th = "(- (gS ?g * norm_pdf (gd1 ?g) * gsigma ?g) / (2 * sqrt (gT ?g))
      - gr ?g * gK ?g * exp (- gr ?g * gT ?g) * norm_cdf (gd2 ?g)) / 365"
  let ?flat = "call_formula S K ?Tn r siv"
  let ?un = "call_formula S K ?Tp r siv"
  let ?pnl = "(?flat - mp) * 100 * real_of_int n"
  have siv: "0 < siv" "max siv 0.05 = siv" using assms(3) by simp_all
  have Tp: "0 < ?Tp" and Tn: "0 < ?Tn" "?Tn \<le> ?Tp" by (simp_all add: max_def)
  have g: "GreeksCalculator (OptionPricer S K T r shv siv) ''call'' = Inr ?g"
    by (rule greeks_ok [OF assms(1,2) siv(1)])
  have th: "theta ?g = Inr ?th"
    by (rule theta_call_ok) (simp_all add: Tp lower_call)
  have neg: "?th < 0"
    by (rule theta_call_negative) (simp_all add: assms Tp siv)
  have un: "bs_call_price (OptionPricer S K T r shv siv) siv = Inr ?un"
    by (rule pricer_call_ok [OF assms(1,2) siv(1)])
  have fl: "bs_call S K ?Tn r siv = Inr ?flat"
    by (rule bs_call_ok [OF assms(1,2) Tn(1) siv(1)])
  have le: "?flat \<le> ?un"
    by (rule call_formula_mono_time [OF assms(1,2) Tn siv(1) assms(4)])
  have less: "0.001 < T \<longrightarrow> ?flat < ?un"
  proof
    assume "0.001 < T"
    then have "?Tn < ?Tp" by (rule flat_time_less)
    then show "?flat < ?un"
      by (rule call_formula_strict_mono_time [OF assms(1,2) Tn(1) _ siv(1) assms(4)])
  qed
  have pnl: "calculate_scenario_pnl (ScenarioEngine (OptionPricer S K T r shv siv) mp n)
          (stock_chg (scenarios ! 2)) (vol_chg (scenarios ! 2)) (days (scenarios ! 2))
         = Inr ?pnl"
    using flat_pnl_ok [OF assms(1,2), of T r shv siv mp n] siv(2) by (simp add: flat_is_third)
  have sg: "?un < mp \<or> 0.001 < T \<and> ?un \<le> mp \<longrightarrow> ?pnl < 0 \<and> sgn ?pnl = sgn ?th"
  proof
    assume a: "?un < mp \<or> 0.001 < T \<and> ?un \<le> mp"
    then have "?flat < mp" using le less by auto
    then have "?flat - mp < 0" by simp
    then have p: "?pnl < 0" using assms(5) by (simp add: mult_less_0_iff)
    then have "sgn ?pnl = - 1" by (simp only: sgn_neg)
    moreover have "sgn ?th = - 1" using neg by (simp only: sgn_neg)
    ultimately show "?pnl < 0 \<and> sgn ?pnl = sgn ?th" using p by simp
  qed
  have nm: "sc_name (scenarios ! 2) = ''Flat''" by (simp add: flat_is_third)
  have rf: "?pnl = (?flat - mp) * 100 * real_of_int n" by (rule refl)
  from nm g th neg un fl le less pnl rf sg show ?thesis by blast
qed

text \<open>
  A one-year call at the money, at a volatility of twenty percent and a rate of zero,
  bought at 10: the unshocked price is below 10, and the Flat scenario reports a loss.
\<close>

theorem flat_scenario_time_decay_witness:
  "(0::real) < 100 \<and> (0.05::real) \<le> 1/5 \<and> (0::real) \<le> 0 \<and> (0::int) < 10
   \<and> (\<exists>g th unshocked flat pnl.
       sc_name (scenarios ! 2) = ''Flat''
     \<and> GreeksCalculator (OptionPricer 100 100 1 0 (1/4) (1/5)) ''call'' = Inr g
     \<and> theta g = Inr th \<and> th < 0
     \<and> bs_call_price (OptionPricer 100 100 1 0 (1/4) (1/5)) (1/5) = Inr unshocked
     \<and> bs_call 100 100 (358/365) 0 (1/5) = Inr flat
     \<and> flat < unshocked
     \<and> (0.001::real) < 1 \<and> unshocked \<le> 10
     \<and> calculate_scenario_pnl
          (ScenarioEngine (OptionPricer 100 100 1 0 (1/4) (1/5)) 10 10) 0 0 7 = Inr pnl
     \<and> pnl = (flat - 10) * 100 * 10
     \<and> pnl < 0 \<and> sgn pnl = sgn th)"
proof -
  have t: "max (max 1 0.001 - 7 / 365) (0.001 :: real) = 358 / 365" by simp
  have u: "bs_call_price (OptionPricer 100 100 1 0 (1/4) (1/5)) (1/5)
      = Inr (call_formula 100 100 1 0 (1 / 5))"
    using pricer_call_ok [of 100 100 "1/5" 1 0 "1/4"] by simp
  show ?thesis
    using flat_scenario_time_decay [of 100 100 "1/5" 0 10 1 "1/4" 10] year_call_below_ten
    by (simp add: t u flat_is_third) blast
qed

text \<open>
  At a volatility of one percent the engine reprices the Flat scenario at the floor of
  five percent: theta is negative, yet the repriced value exceeds the unshocked price, and
  against a market price of 1 the pnl is positive.
\<close>

theorem flat_scenario_counterexample:
  "\<not> isl (GreeksCalculator thin_vol_pricer ''call'')
   \<and> \<not> isl (theta (projr (GreeksCalculator thin_vol_pricer ''call'')))
   \<and> projr (theta (projr (GreeksCalculator thin_vol_pricer ''call''))) < 0
   \<and> bs_call_price thin_vol_pricer (sigma_iv thin_vol_pricer)
       = Inr (call_formula 100 100 (372 / 365) 0 (1 / 100))
   \<and> calculate_scenario_pnl thin_vol_engine 0 0 7
       = Inr ((call_formula 100 100 1 0 (1 / 20) - 1) * 100 * 10)
   \<and> call_formula 100 100 (372 / 365) 0 (1 / 100) < call_formula 100 100 1 0 (1 / 20)
   \<and> 0 < (call_formula 100 100 1 0 (1 / 20) - 1) * 100 * 10"
proof -
  let ?g = "\<lparr>gS = 100, gK = 100, gT = max (372 / 365) 0.001, gr = 0, gsigma = 1 / 100,
          gd1 = bs_d1 100 100 (max (372 / 365) 0.001) 0 (1 / 100),
          gd2 = bs_d2 100 100 (max (372 / 365) 0.001) 0 (1 / 100),
          option_type = lower ''call''\<rparr>"
  have g: "GreeksCalculator thin_vol_pricer ''call'' = Inr ?g"
    unfolding thin_vol_pricer_def by (rule greeks_ok) simp_all
  have th: "theta ?g = Inr ((- (gS ?g * norm_pdf (gd1 ?g) * gsigma ?g) / (2 * sqrt (gT ?g))
      - gr ?g * gK ?g * exp (- gr ?g * gT ?g) * norm_cdf (gd2 ?g)) / 365)"
    by (rule theta_call_ok) (simp_all add: lower_call)
  have neg: "(- (gS ?g * norm_pdf (gd1 ?g) * gsigma ?g) / (2 * sqrt (gT ?g))
      - gr ?g * gK ?g * exp (- gr ?g * gT ?g) * norm_cdf (gd2 ?g)) / 365 < 0"
    by (rule theta_call_negative) simp_all
  have un: "bs_call_price thin_vol_pricer (sigma_iv thin_vol_pricer)
       = Inr (call_formula 100 100 (372 / 365) 0 (1 / 100))"
    using pricer_call_ok [of 100 100 "1 / 100" "372 / 365" 0 "1 / 100" "1 / 100"]
    by (simp add: thin_vol_fields) (simp add: thin_vol_pricer_def)
  have pnl: "calculate_scenario_pnl thin_vol_engine 0 0 7
       = Inr ((call_formula 100 100 1 0 (1 / 20) - 1) * 100 * 10)"
    using flat_pnl_ok [of 100 100 "372 / 365" 0 "1 / 100" "1 / 100" 1 10]
    by (simp add: thin_vol_engine_def thin_vol_pricer_def)
  have pos: "0 < (call_formula 100 100 1 0 (1 / 20) - 1) * 100 * 10"
    using thin_flat_above_one by simp
  show ?thesis
    using un pnl pos thin_flat_above_unshocked neg
    by (simp only: g th sum.sel sum.disc) simp
qed

text \<open>
  C5 (amended). With at least 21 returns, the percentile is 100 times the fraction of the
  defined 21-day values strictly below the last one.  When the last value is the maximum
  of the \<open>n\<close> defined values, the percentile is \<open>100 * (n - k) / n\<close>, where \<open>k\<close> counts
  the values equal to it; it is \<open>100 * (n - 1) / n\<close> when every earlier value is strictly
  below the last one.  The label is HIGH exactly above 80, LOW exactly below 20, NORMAL
  otherwise.
\<close>

theorem regime_percentile:
  assumes "21 \<le> length xs"
  shows "\<exists>hv reg. analyze xs = Inr (hv, reg)
    \<and> (let all_hv = dropna (col_21d (hv_history hv));
            n = length all_hv;
            cur = last all_hv
        in hv_21d hv = Some cur \<and> 0 < n
         \<and> percentile reg = Some (real (length (filter (\<lambda>v. v < cur) all_hv)) / real n * 100)
         \<and> ((\<forall>v \<in> set all_hv. v \<le> cur) \<longrightarrow>
              percentile reg
                = Some (100 * (real n - real (length (filter (\<lambda>v. v = cur) all_hv))) / real n))
         \<and> ((\<forall>i < n - 1. all_hv ! i < cur) \<longrightarrow>
              percentile reg = Some (100 * (real n - 1) / real n))
         \<and> (label reg = ''HIGH'' \<longleftrightarrow> (\<exists>q. percentile reg = Some q \<and> q > 80))
         \<and> (label reg = ''LOW'' \<longleftrightarrow> (\<exists>q. percentile reg = Some q \<and> q < 20))
         \<and> (label reg = ''NORMAL'' \<longleftrightarrow> (\<exists>q. percentile reg = Some q \<and> \<not> q > 80 \<and> \<not> q < 20)))"
proof -
  obtain hv where an: "analyze xs = Inr (hv, determine_regime xs (hv_21d hv))"
    and cur: "hv_21d hv = Some (last (dropna (annualize (rolling_std 21 xs))))"
    and hist: "hv_history hv = history_frame xs"
    using analyze_ok [OF assms] by blast
  define all_hv where "all_hv = dropna (annualize (rolling_std 21 xs))"
  define c where "c = last all_hv"
  define reg where "reg = determine_regime xs (Some c)"
  have all_eq: "all_hv = map (window_std 21 xs) [20..<length xs]"
    unfolding all_hv_def using assms by (simp add: dropna_rolling)
  have n_pos: "0 < length all_hv" using assms by (simp add: all_eq)
  then have ne: "all_hv \<noteq> []" by auto
  have pct: "percentile reg = Some (real (length (filter (\<lambda>v. v < c) all_hv)) / real (length all_hv) * 100)"
    using ne by (simp add: reg_def determine_regime_def Let_def all_hv_def [symmetric]
        filter_lt_current_Some)
  have maxcase: "percentile reg
      = Some (100 * (real (length all_hv) - real (length (filter (\<lambda>v. v = c) all_hv))) / real (length all_hv))"
    if "\<forall>v \<in> set all_hv. v \<le> c"
  proof -
    have "real (length (filter (\<lambda>v. v < c) all_hv))
        = real (length all_hv) - real (length (filter (\<lambda>v. v = c) all_hv))"
      using filter_split_count [OF that] by linarith
    then show ?thesis by (simp add: pct)
  qed
  have strictcase: "percentile reg = Some (100 * (real (length all_hv) - 1) / real (length all_hv))"
    if "\<forall>i < length all_hv - 1. all_hv ! i < c"
  proof -
    have bl: "all_hv = butlast all_hv @ [c]"
      using ne by (simp add: c_def)
    have "\<forall>v \<in> set (butlast all_hv). v < c"
    proof
      fix v assume "v \<in> set (butlast all_hv)"
      then obtain i where "i < length (butlast all_hv)" "butlast all_hv ! i = v"
        by (auto simp add: in_set_conv_nth)
      then have "i < length all_hv - 1" "all_hv ! i = v"
        by (simp_all add: nth_butlast)
      then show "v < c" using that by blast
    qed
    then have "filter (\<lambda>v. v < c) (butlast all_hv) = butlast all_hv"
      by simp
    then have "filter (\<lambda>v. v < c) all_hv = butlast all_hv"
      by (subst bl) simp
    then have "real (length (filter (\<lambda>v. v < c) all_hv)) = real (length all_hv) - 1"
      using n_pos by (simp add: of_nat_diff Suc_leI)
    then show ?thesis by (simp add: pct)
  qed
  have lab: "label reg =
     (case percentile reg of
        None \<Rightarrow> ''NORMAL''
      | Some q \<Rightarrow> if q > 80 then ''HIGH'' else if q < 20 then ''LOW'' else ''NORMAL'')"
    unfolding reg_def by (rule determine_regime_label)
  have labs: "(label reg = ''HIGH'' \<longleftrightarrow> (\<exists>q. percentile reg = Some q \<and> q > 80))"
    "(label reg = ''LOW'' \<longleftrightarrow> (\<exists>q. percentile reg = Some q \<and> q < 20))"
    "(label reg = ''NORMAL'' \<longleftrightarrow> (\<exists>q. percentile reg = Some q \<and> \<not> q > 80 \<and> \<not> q < 20))"
    unfolding lab pct by simp_all
  have "analyze xs = Inr (hv, reg)"
    using an cur by (simp add: reg_def c_def all_hv_def)
  moreover have "dropna (col_21d (hv_history hv)) = all_hv"
    by (simp add: hist history_frame_def all_hv_def)
  moreover have "hv_21d hv = Some c"
    using cur by (simp add: c_def all_hv_def)
  ultimately show ?thesis
    using n_pos pct maxcase strictcase labs
    by (intro exI [of _ hv] exI [of _ reg]) (simp add: Let_def c_def)
qed


text \<open>
  Twenty-one zero returns followed by a jump: the last 21-day value is the strict maximum of two.
\<close>

theorem regime_percentile_witness:
  "21 \<le> length returns_jump
   \<and> length (dropna (annualize (rolling_std 21 returns_jump))) = 2
   \<and> dropna (annualize (rolling_std 21 returns_jump)) ! 0
         < last (dropna (annualize (rolling_std 21 returns_jump)))
   \<and> (\<exists>hv reg. analyze returns_jump = Inr (hv, reg)
         \<and> hv_21d hv = Some (sample_std (replicate 20 0 @ [1]) * sqrt 252)
         \<and> percentile reg = Some 50 \<and> label reg = ''NORMAL'')"
proof -
  have len: "21 \<le> length returns_jump" by (simp add: returns_jump_def)
  have strict: "length (dropna (annualize (rolling_std 21 returns_jump))) = 2
      \<and> dropna (annualize (rolling_std 21 returns_jump)) ! 0
         < last (dropna (annualize (rolling_std 21 returns_jump)))"
    using jump_std_pos by (simp add: jump_all_hv)
  obtain hv reg where an: "analyze returns_jump = Inr (hv, reg)"
    and rest: "(let all_hv = dropna (col_21d (hv_history hv));
            n = length all_hv;
            cur = last all_hv
        in hv_21d hv = Some cur \<and> 0 < n
         \<and> percentile reg = Some (real (length (filter (\<lambda>v. v < cur) all_hv)) / real n * 100)
         \<and> ((\<forall>v \<in> set all_hv. v \<le> cur) \<longrightarrow>
              percentile reg
                = Some (100 * (real n - real (length (filter (\<lambda>v. v = cur) all_hv))) / real n))
         \<and> ((\<forall>i < n - 1. all_hv ! i < cur) \<longrightarrow>
              percentile reg = Some (100 * (real n - 1) / real n))
         \<and> (label reg = ''HIGH'' \<longleftrightarrow> (\<exists>q. percentile reg = Some q \<and> q > 80))
         \<and> (label reg = ''LOW'' \<longleftrightarrow> (\<exists>q. percentile reg = Some q \<and> q < 20))
         \<and> (label reg = ''NORMAL'' \<longleftrightarrow> (\<exists>q. percentile reg = Some q \<and> \<not> q > 80 \<and> \<not> q < 20)))"
    using regime_percentile [OF len] by blast
  have hist: "dropna (col_21d (hv_history hv)) = dropna (annualize (rolling_std 21 returns_jump))"
    using an analyze_ok [OF len] by (auto simp add: history_frame_def)
  have "hv_21d hv = Some (sample_std (replicate 20 0 @ [1]) * sqrt 252)
      \<and> percentile reg = Some 50 \<and> label reg = ''NORMAL''"
    using rest jump_std_pos unfolding hist jump_all_hv by (simp add: Let_def)
  with len strict an show ?thesis by blast
qed

text \<open>
  Twenty-two zero returns: both defined values are zero, the last one is the maximum,
  and the percentile is 0 rather than 50.
\<close>

theorem regime_percentile_counterexample:
  "dropna (annualize (rolling_std 21 returns_flat)) = [0, 0]
   \<and> last (annualize (rolling_std 21 returns_flat)) = Some 0
   \<and> Max (set [0, 0 :: real]) = 0
   \<and> percentile (determine_regime returns_flat (Some 0)) = Some 0
   \<and> percentile (determine_regime returns_flat (Some 0)) \<noteq> Some (100 * (2 - 1) / 2)"
proof -
  have "percentile (determine_regime returns_flat (Some 0)) = Some 0"
    by (simp add: determine_regime_def Let_def flat_all_hv lt_current_def)
  then show ?thesis by (simp add: flat_all_hv flat_last)
qed

text \<open>
  C6 (amended). For each window \<open>w\<close> of 21, 63 and 252 returns, the column of the rolling
  history has one entry for every return.  The entries at the first \<open>w - 1\<close> positions
  are undefined (NaN, not zero); every later entry is the annualized sample deviation of
  the \<open>w\<close> returns ending there.  Only the regime classification drops the undefined
  entries, keeping the positions from \<open>w - 1\<close> on.
\<close>

theorem rolling_history_entries:
  assumes "(w, col) \<in> {(21, col_21d (history_frame xs)), (63, col_63d (history_frame xs)),
                        (252, col_252d (history_frame xs))}"
  shows "length col = length xs
    \<and> (\<forall>i < length xs. i < w - 1 \<longrightarrow> col ! i = None)
    \<and> (\<forall>i < length xs. w - 1 \<le> i \<longrightarrow> col ! i = Some (window_std w xs i))
    \<and> dropna col = map (window_std w xs) [w - 1..<length xs]"
proof -
  from assms consider "w = 21" "col = annualize (rolling_std 21 xs)"
    | "w = 63" "col = annualize (rolling_std 63 xs)"
    | "w = 252" "col = annualize (rolling_std 252 xs)"
    by (auto simp add: history_frame_def)
  then show ?thesis
  proof cases
    case 1
    then show ?thesis using rolling_column [of 21 xs] by simp
  next
    case 2
    then show ?thesis using rolling_column [of 63 xs] by simp
  next
    case 3
    then show ?thesis using rolling_column [of 252 xs] by simp
  qed
qed

text \<open>
  The 21-day column of twenty-two returns.
\<close>

theorem rolling_history_entries_witness:
  "(21, col_21d (history_frame returns_flat))
      \<in> {(21, col_21d (history_frame returns_flat)), (63, col_63d (history_frame returns_flat)),
           (252, col_252d (history_frame returns_flat))}
   \<and> (0::nat) < length returns_flat \<and> (0::nat) < 21 - 1
   \<and> (21::nat) < length returns_flat \<and> (21::nat) - 1 \<le> 21
   \<and> length (col_21d (history_frame returns_flat)) = 22
   \<and> col_21d (history_frame returns_flat) ! 0 = None
   \<and> col_21d (history_frame returns_flat) ! 21 = Some (window_std 21 returns_flat 21)
   \<and> dropna (col_21d (history_frame returns_flat)) = map (window_std 21 returns_flat) [20..<22]"
proof -
  have m: "(21, col_21d (history_frame returns_flat))
      \<in> {(21, col_21d (history_frame returns_flat)), (63, col_63d (history_frame returns_flat)),
           (252, col_252d (history_frame returns_flat))}"
    by simp
  have len: "length returns_flat = 22" by (simp add: returns_flat_def)
  show ?thesis
    using rolling_history_entries [OF m] by (simp add: len)
qed

text \<open>
  Twenty-two returns give a 21-day column of twenty-two entries, the first of them
  undefined; only dropping the undefined entries leaves two.
\<close>

theorem rolling_history_counterexample:
  "length returns_flat = 22
   \<and> length (col_21d (history_frame returns_flat)) = 22
   \<and> col_21d (history_frame returns_flat) ! 0 = None
   \<and> None \<in> set (col_21d (history_frame returns_flat))
   \<and> length (dropna (col_21d (history_frame returns_flat))) = 2"
proof -
  have len: "length returns_flat = 22" by (simp add: returns_flat_def)
  have col: "col_21d (history_frame returns_flat) = annualize (rolling_std 21 returns_flat)"
    by (simp add: history_frame_def)
  have l: "length (col_21d (history_frame returns_flat)) = 22"
    by (simp add: col length_rolling_std len)
  have z: "col_21d (history_frame returns_flat) ! 0 = None"
    by (simp add: col nth_rolling_std len)
  have "None \<in> set (col_21d (history_frame returns_flat))"
    using l z by (metis nth_mem zero_less_numeral)
  then show ?thesis
    using len l z by (simp add: col flat_all_hv)
qed

text \<open>
  C7. For each of the seven scenarios and every engine with \<open>S > 0\<close> and \<open>K > 0\<close>,
  the shocked volatility is at least 0.05, the shocked time at least 0.001 and the shocked
  spot positive, and the repricing returns the call formula at the shocked inputs: no
  logarithm, square root or division raises.
\<close>

theorem scenario_repricing_defined:
  assumes "s \<in> set scenarios" "0 < eS e" "0 < eK e"
  shows "max (esigma e + vol_chg s) 0.05 \<ge> 0.05
    \<and> max (eT e - real_of_int (days s) / 365) 0.001 \<ge> 0.001
    \<and> eS e * (1 + stock_chg s) > 0
    \<and> calculate_scenario_pnl e (stock_chg s) (vol_chg s) (days s)
        = Inr ((call_formula (eS e * (1 + stock_chg s)) (eK e)
                  (max (eT e - real_of_int (days s) / 365) 0.001) (er e)
                  (max (esigma e + vol_chg s) 0.05) - market_price e) * 100
               * real_of_int (num_contracts e))"
proof -
  have sig: "max (esigma e + vol_chg s) 0.05 \<ge> 0.05" by simp
  have tm: "max (eT e - real_of_int (days s) / 365) 0.001 \<ge> 0.001" by simp
  have "1 + stock_chg s > 0" using scenario_cases(1) [OF assms(1)] by simp
  then have sp: "eS e * (1 + stock_chg s) > 0" using assms(2) by simp
  have "bs_call (eS e * (1 + stock_chg s)) (eK e)
            (max (eT e - real_of_int (days s) / 365) 0.001) (er e)
            (max (esigma e + vol_chg s) 0.05)
        = Inr (call_formula (eS e * (1 + stock_chg s)) (eK e)
            (max (eT e - real_of_int (days s) / 365) 0.001) (er e)
            (max (esigma e + vol_chg s) 0.05))"
    by (rule bs_call_ok [OF sp assms(3)]) (simp_all add: max_def)
  then have "calculate_scenario_pnl e (stock_chg s) (vol_chg s) (days s)
        = Inr ((call_formula (eS e * (1 + stock_chg s)) (eK e)
                  (max (eT e - real_of_int (days s) / 365) 0.001) (er e)
                  (max (esigma e + vol_chg s) 0.05) - market_price e) * 100
               * real_of_int (num_contracts e))"
    by (simp add: calculate_scenario_pnl_def Let_def pbind_def)
  with sig tm sp show ?thesis by blast
qed

text \<open>
  The Crash scenario on the sample position.
\<close>

theorem scenario_repricing_defined_witness:
  "crash \<in> set scenarios \<and> 0 < eS engine0 \<and> 0 < eK engine0
    \<and> max (esigma engine0 + vol_chg crash) 0.05 \<ge> 0.05
    \<and> max (eT engine0 - real_of_int (days crash) / 365) 0.001 \<ge> 0.001
    \<and> eS engine0 * (1 + stock_chg crash) > 0
    \<and> calculate_scenario_pnl engine0 (stock_chg crash) (vol_chg crash) (days crash)
        = Inr ((call_formula (eS engine0 * (1 + stock_chg crash)) (eK engine0)
                  (max (eT engine0 - real_of_int (days crash) / 365) 0.001) (er engine0)
                  (max (esigma engine0 + vol_chg crash) 0.05) - market_price engine0) * 100
               * real_of_int (num_contracts engine0))"
proof -
  have a: "crash \<in> set scenarios" by (simp add: crash_def scenarios_def)
  have b: "0 < eS engine0" "0 < eK engine0" by (simp_all add: engine0_def)
  show ?thesis using scenario_repricing_defined [OF a b] a b by simp
qed

text \<open>
  C8 (amended). Contract selection returns the result without a contract exactly when the
  strict tier and the relaxed tier are both empty; this is a returned value, not an
  exception.  Otherwise, when some row of the first non-empty tier has a score that is not
  NaN, the row chosen is the first row of that tier whose score is maximal, NaN counting
  as minus infinity; the selection goes on to convert the open interest and the volume of
  that row to integers, and it returns the row when both are finite numbers.
\<close>

theorem contract_selection:
  "(filter_and_score cfg otm = Inr None \<longleftrightarrow> strict_tier cfg otm = [] \<and> relaxed_tier otm = [])
   \<and> ((\<exists>row \<in> set (first_tier cfg otm). score cfg row \<noteq> NaN) \<longrightarrow>
        (\<exists>i < length (first_tier cfg otm).
            (\<forall>j < length (first_tier cfg otm).
                \<not> np_less (fill_nan (score cfg (first_tier cfg otm ! i)))
                           (fill_nan (score cfg (first_tier cfg otm ! j))))
          \<and> (\<forall>j < i. np_less (fill_nan (score cfg (first_tier cfg otm ! j)))
                               (fill_nan (score cfg (first_tier cfg otm ! i))))
          \<and> filter_and_score cfg otm
              = pbind (to_selection (first_tier cfg otm ! i)) (\<lambda>best. Inr (Some best))
          \<and> (\<forall>oi vol. openInterest (first_tier cfg otm ! i) = Fin oi
                     \<and> volume (first_tier cfg otm ! i) = Fin vol \<longrightarrow>
                filter_and_score cfg otm
                  = Inr (Some (selection_dict (first_tier cfg otm ! i)
                                 (py_trunc oi) (py_trunc vol))))))"
proof (intro conjI impI)
  show "filter_and_score cfg otm = Inr None \<longleftrightarrow> strict_tier cfg otm = [] \<and> relaxed_tier otm = []"
    unfolding filter_and_score_eq first_tier_empty_iff [symmetric]
    by (simp add: pbind_Inr_None)
next
  let ?t = "first_tier cfg otm"
  assume "\<exists>row \<in> set ?t. score cfg row \<noteq> NaN"
  then have ex: "\<exists>v \<in> set (map (score cfg) ?t). v \<noteq> NaN" and ne: "?t \<noteq> []"
    by auto
  from idxmax_spec [OF ex] obtain i where i: "i < length ?t"
    and im: "idxmax (map (score cfg) ?t) = Inr i"
    and top: "\<forall>j<length ?t. \<not> np_less (fill_nan (map (score cfg) ?t ! i))
                                          (fill_nan (map (score cfg) ?t ! j))"
    and first: "\<forall>j<i. np_less (fill_nan (map (score cfg) ?t ! j))
                               (fill_nan (map (score cfg) ?t ! i))"
    by auto
  have res: "filter_and_score cfg otm = pbind (to_selection (?t ! i)) (\<lambda>best. Inr (Some best))"
    using ne im by (simp add: filter_and_score_eq pbind_def)
  have fin: "\<forall>oi vol. openInterest (?t ! i) = Fin oi \<and> volume (?t ! i) = Fin vol \<longrightarrow>
      filter_and_score cfg otm = Inr (Some (selection_dict (?t ! i) (py_trunc oi) (py_trunc vol)))"
    by (simp add: res to_selection_finite pbind_def)
  have top': "\<forall>j<length ?t. \<not> np_less (fill_nan (score cfg (?t ! i))) (fill_nan (score cfg (?t ! j)))"
    using top i by simp
  have first': "\<forall>j<i. np_less (fill_nan (score cfg (?t ! j))) (fill_nan (score cfg (?t ! i)))"
  proof (intro allI impI)
    fix j assume "j < i"
    then have "j < length ?t" "np_less (fill_nan (map (score cfg) ?t ! j))
                               (fill_nan (map (score cfg) ?t ! i))"
      using i first by simp_all
    then show "np_less (fill_nan (score cfg (?t ! j))) (fill_nan (score cfg (?t ! i)))"
      using i by simp
  qed
  from i res fin top' first'
  show "\<exists>i < length ?t.
            (\<forall>j < length ?t.
                \<not> np_less (fill_nan (score cfg (?t ! i))) (fill_nan (score cfg (?t ! j))))
          \<and> (\<forall>j < i. np_less (fill_nan (score cfg (?t ! j))) (fill_nan (score cfg (?t ! i))))
          \<and> filter_and_score cfg otm = pbind (to_selection (?t ! i)) (\<lambda>best. Inr (Some best))
          \<and> (\<forall>oi vol. openInterest (?t ! i) = Fin oi \<and> volume (?t ! i) = Fin vol \<longrightarrow>
                filter_and_score cfg otm
                  = Inr (Some (selection_dict (?t ! i) (py_trunc oi) (py_trunc vol))))"
    by blast
qed

text \<open>
  Two quotes with the same score, an open interest of 500 and a volume of 40: the first
  one is returned.
\<close>

theorem contract_selection_witness:
  "first_tier Config [with_pct_otm (Fin 10) quote_a, with_pct_otm (Fin 10) quote_b]
     = [with_pct_otm (Fin 10) quote_a, with_pct_otm (Fin 10) quote_b]
   \<and> score Config (with_pct_otm (Fin 10) quote_a) \<noteq> NaN
   \<and> score Config (with_pct_otm (Fin 10) quote_b) = score Config (with_pct_otm (Fin 10) quote_a)
   \<and> openInterest (with_pct_otm (Fin 10) quote_a) = Fin 500
   \<and> volume (with_pct_otm (Fin 10) quote_a) = Fin 40
   \<and> filter_and_score Config [with_pct_otm (Fin 10) quote_a, with_pct_otm (Fin 10) quote_b]
       = Inr (Some (selection_dict (with_pct_otm (Fin 10) quote_a) 500 40))"
proof -
  let ?otm = "[with_pct_otm (Fin 10) quote_a, with_pct_otm (Fin 10) quote_b]"
  have ex: "\<exists>row \<in> set (first_tier Config ?otm). score Config row \<noteq> NaN"
    by (simp add: tier_quotes score_quote_a)
  with contract_selection [of Config ?otm]
  obtain i where i: "i < length (first_tier Config ?otm)"
    and first: "\<forall>j < i. np_less (fill_nan (score Config (first_tier Config ?otm ! j)))
                               (fill_nan (score Config (first_tier Config ?otm ! i)))"
    and res: "\<forall>oi vol. openInterest (first_tier Config ?otm ! i) = Fin oi
                     \<and> volume (first_tier Config ?otm ! i) = Fin vol \<longrightarrow>
                filter_and_score Config ?otm
                  = Inr (Some (selection_dict (first_tier Config ?otm ! i)
                                 (py_trunc oi) (py_trunc vol)))"
    by blast
  have "i = 0"
  proof (rule ccontr)
    assume "i \<noteq> 0"
    with i have "i = 1" by (simp add: tier_quotes)
    with first have "np_less (fill_nan (score Config (first_tier Config ?otm ! 0)))
                               (fill_nan (score Config (first_tier Config ?otm ! 1)))"
      by simp
    then show False by (simp add: tier_quotes score_quote_a score_quote_b)
  qed
  with res have "filter_and_score Config ?otm
      = Inr (Some (selection_dict (with_pct_otm (Fin 10) quote_a) (py_trunc 500) (py_trunc 40)))"
    by (simp add: tier_quotes quote_a_fields)
  then show ?thesis
    by (simp add: tier_quotes score_quote_a score_quote_b quote_a_fields py_trunc_def)
qed

text \<open>
  A single candidate that never traded (last price, bid and ask all zero): the strict
  tier holds it, its score is NaN, and the selection raises.
\<close>

theorem contract_selection_counterexample:
  "strict_tier Config [with_pct_otm (Fin 10) quote_untraded] = [with_pct_otm (Fin 10) quote_untraded]
   \<and> score Config (with_pct_otm (Fin 10) quote_untraded) = NaN
   \<and> select_option Config [quote_untraded] (Fin 100) = Inl KeyError"
proof -
  have t: "strict_tier Config [with_pct_otm (Fin 10) quote_untraded]
      = [with_pct_otm (Fin 10) quote_untraded]"
    by (simp add: strict_tier_def Config_def with_pct_otm_def quote_untraded_def
        chain_row.extend_def)
  have sc: "score Config (with_pct_otm (Fin 10) quote_untraded) = NaN"
    by (simp add: score_def Config_def with_pct_otm_def quote_untraded_def chain_row.extend_def
        np_sub_def Let_def)
  have "select_option Config [quote_untraded] (Fin 100)
      = filter_and_score Config [with_pct_otm (Fin 10) quote_untraded]"
    by (simp add: select_option_def Let_def quote_untraded_def np_sub_def)
  also have "\<dots> = Inl KeyError"
    by (simp add: filter_and_score_def Let_def t sc idxmax_def pbind_def)
  finally show ?thesis using t sc by simp
qed

text \<open>
  C9. For \<open>S > 0\<close>, \<open>K > 0\<close> and every \<open>T\<close> and \<open>r\<close>, the call price of the pricer
  does not decrease when the volatility grows over the positive reals, and the vega of
  the Greeks engine, \<open>S * sqrt T * norm_pdf d1 / 100\<close> at the floored \<open>T\<close>, is not negative.
\<close>

theorem call_price_monotone_in_sigma_and_vega_nonneg:
  assumes "0 < S" "0 < K" "0 < s1" "s1 \<le> s2"
  shows "(\<exists>c1 c2. bs_call_price (OptionPricer S K T r shv siv) s1 = Inr c1
      \<and> bs_call_price (OptionPricer S K T r shv siv) s2 = Inr c2 \<and> c1 \<le> c2)
    \<and> (\<exists>g v. GreeksCalculator (OptionPricer S K T r shv s1) otype = Inr g
      \<and> vega g = Inr v
      \<and> v = S * sqrt (max T 0.001) * norm_pdf (bs_d1 S K (max T 0.001) r s1) / 100
      \<and> 0 \<le> v)"
proof -
  have T: "0 < max T (0.001 :: real)" by (simp add: max_def)
  have s2: "0 < s2" using assms by simp
  have "call_formula S K (max T 0.001) r s1 \<le> call_formula S K (max T 0.001) r s2"
    using assms T by (intro call_formula_mono_sigma) simp_all
  then have mono: "\<exists>c1 c2. bs_call_price (OptionPricer S K T r shv siv) s1 = Inr c1
      \<and> bs_call_price (OptionPricer S K T r shv siv) s2 = Inr c2 \<and> c1 \<le> c2"
    using pricer_call_ok [OF assms(1,2,3)] pricer_call_ok [OF assms(1,2) s2] by simp
  let ?p = "OptionPricer S K T r shv s1"
  let ?g = "\<lparr>gS = S, gK = K, gT = max T 0.001, gr = r, gsigma = s1,
            gd1 = bs_d1 S K (max T 0.001) r s1, gd2 = bs_d2 S K (max T 0.001) r s1,
            option_type = lower otype\<rparr>"
  have g: "GreeksCalculator ?p otype = Inr ?g"
    using d1_ok [of ?p s1] d2_ok [of ?p s1] assms pricer_T_pos [of S K T r shv s1]
    by (simp add: GreeksCalculator_def get_d1_def get_d2_def pbind_def pricer_fields)
  have v: "vega ?g = Inr (S * sqrt (max T 0.001) * norm_pdf (bs_d1 S K (max T 0.001) r s1) / 100)"
    using T by (simp add: vega_def math_sqrt_def pbind_def Let_def)
  have "0 \<le> S * sqrt (max T 0.001) * norm_pdf (bs_d1 S K (max T 0.001) r s1) / 100"
    using assms(1) norm_pdf_pos [of "bs_d1 S K (max T 0.001) r s1"] by simp
  with g v mono show ?thesis by blast
qed


text \<open>
  The sample call at volatilities of 25 and 30 percent.
\<close>

theorem call_price_monotone_in_sigma_and_vega_nonneg_witness:
  "(0::real) < 100 \<and> (0::real) < 110 \<and> (0::real) < 1/4 \<and> (1/4::real) \<le> 3/10 \<and>
   (\<exists>c1 c2. bs_call_price (OptionPricer 100 110 (35/365) (45/1000) (1/4) (3/10)) (1/4) = Inr c1
      \<and> bs_call_price (OptionPricer 100 110 (35/365) (45/1000) (1/4) (3/10)) (3/10) = Inr c2
      \<and> c1 \<le> c2)
    \<and> (\<exists>g v. GreeksCalculator (OptionPricer 100 110 (35/365) (45/1000) (1/4) (1/4)) ''call'' = Inr g
      \<and> vega g = Inr v
      \<and> v = 100 * sqrt (max (35/365) 0.001)
            * norm_pdf (bs_d1 100 110 (max (35/365) 0.001) (45/1000) (1/4)) / 100
      \<and> 0 \<le> v)"
  using call_price_monotone_in_sigma_and_vega_nonneg
    [of 100 110 "1/4" "3/10" "35/365" "45/1000" "1/4" "3/10" "''call''"]
  by simp

text \<open>
  C10. For \<open>S > 0\<close>, \<open>K > 0\<close> and \<open>sigma_iv > 0\<close> the Greeks calculator is built
  without raising, and its delta lies in \<open>[-1, 0]\<close> when the lower-cased option type is
  \<open>put\<close> and in \<open>[0, 1]\<close> otherwise (every other type is priced as a call).
\<close>

theorem delta_range:
  assumes "0 < S" "0 < K" "0 < siv"
  shows "\<exists>g. GreeksCalculator (OptionPricer S K T r shv siv) otype = Inr g
    \<and> option_type g = lower otype
    \<and> (if option_type g = ''put'' then - 1 \<le> delta g \<and> delta g \<le> 0
        else 0 \<le> delta g \<and> delta g \<le> 1)"
proof -
  let ?g = "\<lparr>gS = S, gK = K, gT = max T 0.001, gr = r, gsigma = siv,
          gd1 = bs_d1 S K (max T 0.001) r siv, gd2 = bs_d2 S K (max T 0.001) r siv,
          option_type = lower otype\<rparr>"
  have "0 \<le> norm_cdf (gd1 ?g)" "norm_cdf (gd1 ?g) \<le> 1"
    by (rule norm_cdf_bounds)+
  then have rng: "if option_type ?g = ''put'' then - 1 \<le> delta ?g \<and> delta ?g \<le> 0
        else 0 \<le> delta ?g \<and> delta ?g \<le> 1"
    by (simp add: delta_def)
  have g: "GreeksCalculator (OptionPricer S K T r shv siv) otype = Inr ?g"
    by (rule greeks_ok [OF assms])
  have ot: "option_type ?g = lower otype" by simp
  from g ot rng show ?thesis by (intro exI [of _ ?g] conjI)
qed

text \<open>
  A put, its type given with a capital letter.
\<close>

theorem delta_range_witness:
  "(0::real) < 100 \<and> (0::real) < 90 \<and> (0::real) < 3/10 \<and>
   (\<exists>g. GreeksCalculator (OptionPricer 100 90 (35/365) (45/1000) (1/4) (3/10)) ''Put'' = Inr g
    \<and> option_type g = ''put''
    \<and> - 1 \<le> delta g \<and> delta g \<le> 0)"
proof -
  have l: "lower ''Put'' = ''put''"
    by (simp add: lower_def lower_char_def)
  show ?thesis
    using delta_range [of 100 90 "3/10" "35/365" "45/1000" "1/4" "''Put''"]
    by (auto simp add: l)
qed

end
